theory Spec2Isabelle
  imports Main
begin

section \<open>The document tree\<close>

text \<open>
  The walk reads an \<^verbatim>\<open>xml.etree.ElementTree\<close> tree that is already parsed. An element
  has a tag, a dictionary of attributes, an optional text and its children in document
  order. Strings are the UTF-8 bytes of the Python strings; the walk only concatenates and
  compares them. The tail text of an element is never read by the walk and is left out.
\<close>

datatype element =
  Element (tag: string) (attrib: "(string \<times> string) list") (etext: "string option")
    (children: "element list")

text \<open>\<^verbatim>\<open>e.attrib.get(k, d)\<close>\<close>

definition attrib_get :: "element \<Rightarrow> string \<Rightarrow> string \<Rightarrow> string" where
  "attrib_get e k d = (case map_of (attrib e) k of None \<Rightarrow> d | Some v \<Rightarrow> v)"

text \<open>\<^verbatim>\<open>e.find(t)\<close>: the first direct child with tag \<open>t\<close>, or \<^verbatim>\<open>None\<close>.\<close>

definition find_elem :: "element \<Rightarrow> string \<Rightarrow> element option" where
  "find_elem e t = List.find (\<lambda>c. tag c = t) (children e)"

text \<open>\<^verbatim>\<open>e.findall(t)\<close>: the direct children with tag \<open>t\<close>, in document order.\<close>

definition findall :: "element \<Rightarrow> string \<Rightarrow> element list" where
  "findall e t = filter (\<lambda>c. tag c = t) (children e)"

text \<open>
  \<^verbatim>\<open>e.findtext(t)\<close>: the text of the first direct child with tag \<open>t\<close>; the empty string
  when that child has no text, and \<^verbatim>\<open>None\<close> when there is no such child.
\<close>

definition findtext :: "element \<Rightarrow> string \<Rightarrow> string option" where
  "findtext e t =
     (case find_elem e t of
        None \<Rightarrow> None
      | Some c \<Rightarrow> (case etext c of None \<Rightarrow> Some [] | Some s \<Rightarrow> Some s))"

section \<open>Strings\<close>

text \<open>\<^verbatim>\<open>str(n)\<close> of an integer, in decimal.\<close>

definition digit_char :: "nat \<Rightarrow> char" where
  "digit_char d = char_of (48 + d)"

fun str_nat :: "nat \<Rightarrow> string" where
  "str_nat n = (if n < 10 then [digit_char n] else str_nat (n div 10) @ [digit_char (n mod 10)])"

declare str_nat.simps [simp del]

definition str_int :: "int \<Rightarrow> string" where
  "str_int i = (if i < 0 then CHR ''-'' # str_nat (nat (- i)) else str_nat (nat i))"

text \<open>
  \<^verbatim>\<open>s.zfill(w)\<close>: zeros are put on the left up to width \<open>w\<close>, after a leading sign; a
  string that is already \<open>w\<close> long or longer is returned as it is.
\<close>

definition zfill :: "nat \<Rightarrow> string \<Rightarrow> string" where
  "zfill w s =
     (if w \<le> length s then s
      else (case s of
              [] \<Rightarrow> replicate w CHR ''0''
            | c # cs \<Rightarrow>
                if c = CHR ''+'' \<or> c = CHR ''-''
                then c # replicate (w - length s) CHR ''0'' @ cs
                else replicate (w - length s) CHR ''0'' @ s))"

text \<open>\<^verbatim>\<open>sep.join(xs)\<close>\<close>

fun join :: "string \<Rightarrow> string list \<Rightarrow> string" where
  "join sep [] = []"
| "join sep [x] = x"
| "join sep (x # y # ys) = x @ sep @ join sep (y # ys)"

text \<open>An optional string inside an f-string: \<^verbatim>\<open>None\<close> prints as \<^verbatim>\<open>None\<close>.\<close>

definition fmt :: "string option \<Rightarrow> string" where
  "fmt v = (case v of None \<Rightarrow> ''None'' | Some s \<Rightarrow> s)"

text \<open>The symbols of the log lines, as their UTF-8 bytes.\<close>

definition CROSS_MARK :: string where
  "CROSS_MARK = [CHR 0xE2, CHR 0x9D, CHR 0x8C]"

definition WARNING_SIGN :: string where
  "WARNING_SIGN = [CHR 0xE2, CHR 0x9A, CHR 0xA0, CHR 0xEF, CHR 0xB8, CHR 0x8F]"

definition OPEN_FOLDER :: string where
  "OPEN_FOLDER = [CHR 0xF0, CHR 0x9F, CHR 0x93, CHR 0x82]"

definition EYES :: string where
  "EYES = [CHR 0xF0, CHR 0x9F, CHR 0x91, CHR 0x80]"

definition RIGHT_ARROW :: string where
  "RIGHT_ARROW = [CHR 0xE2, CHR 0x86, CHR 0x92]"

definition SPEECH_BALLOON :: string where
  "SPEECH_BALLOON = [CHR 0xF0, CHR 0x9F, CHR 0x92, CHR 0xAC]"

section \<open>The Python runtime the code calls\<close>

text \<open>
  Three library functions are parameters of the model: \<^verbatim>\<open>int(s)\<close> on a string (\<open>None\<close>
  is its \<^verbatim>\<open>ValueError\<close>), the text \<^verbatim>\<open>str(e)\<close> of an exception, and
  \<^verbatim>\<open>ET.tostring(e, encoding='unicode')\<close>.
\<close>

datatype py_exception =
  IntLiteralError string
  | YearOutOfRange int
  | MonthOutOfRange int
  | DayOutOfRange int int int

record runtime =
  py_int :: "string \<Rightarrow> int option"
  exc_str :: "py_exception \<Rightarrow> string"
  tostring :: "element \<Rightarrow> string"

text \<open>
  \<^verbatim>\<open>datetime(year, month, day)\<close>: the year is checked first (1 to 9999), then the month,
  then the day against the length of the month.
\<close>

definition is_leap :: "int \<Rightarrow> bool" where
  "is_leap y = (if y mod 100 = 0 then y mod 400 = 0 else y mod 4 = 0)"

definition days_in_month :: "int \<Rightarrow> int \<Rightarrow> int" where
  "days_in_month y m =
     (if m = 2 then (if is_leap y then 29 else 28)
      else if m = 4 \<or> m = 6 \<or> m = 9 \<or> m = 11 then 30 else 31)"

definition datetime :: "int \<Rightarrow> int \<Rightarrow> int \<Rightarrow> py_exception + int \<times> int \<times> int" where
  "datetime y m d =
     (if y < 1 \<or> 9999 < y then Inl (YearOutOfRange y)
      else if m < 1 \<or> 12 < m then Inl (MonthOutOfRange m)
      else if d < 1 \<or> days_in_month y m < d then Inl (DayOutOfRange y m d)
      else Inr (y, m, d))"

text \<open>
  \<^verbatim>\<open>dt.strftime("%Y/%m/%d")\<close>, for the years the code formats (1900 and later): four
  digits of year, two of month, two of day.
\<close>

definition strftime :: "int \<times> int \<times> int \<Rightarrow> string" where
  "strftime dt =
     (case dt of (y, m, d) \<Rightarrow>
        zfill 4 (str_int y) @ ''/'' @ zfill 2 (str_int m) @ ''/'' @ zfill 2 (str_int d))"

section \<open>DaabNavisExport/parseXml.py\<close>

definition CSV_FILE_NAME :: string where
  "CSV_FILE_NAME = ''navisworks_views_comments.csv''"

text \<open>\<^verbatim>\<open>Path(CSV_FILE_NAME).stem\<close>: the name without its last suffix.\<close>

definition CSV_FILE_STEM :: string where
  "CSV_FILE_STEM = take (length CSV_FILE_NAME - length ''.csv'') CSV_FILE_NAME"

definition IMAGE_FILE_PREFIX :: string where
  "IMAGE_FILE_PREFIX = (if CSV_FILE_STEM \<noteq> [] then CSV_FILE_STEM @ ''_vp'' else ''vp_'')"

subsection \<open>parse\_createddate\<close>

text \<open>
  Reading one field, \<^verbatim>\<open>int(date_node.attrib.get(k, 0))\<close>: 0 when the attribute is absent,
  an exception when \<^verbatim>\<open>int\<close> rejects the attribute's text.
\<close>

definition int_attr :: "runtime \<Rightarrow> element \<Rightarrow> string \<Rightarrow> py_exception + int" where
  "int_attr rt node k =
     (case map_of (attrib node) k of
        None \<Rightarrow> Inr 0
      | Some s \<Rightarrow> (case py_int rt s of None \<Rightarrow> Inl (IntLiteralError s) | Some i \<Rightarrow> Inr i))"

text \<open>The body of the \<^verbatim>\<open>try\<close>: \<open>Inl\<close> is an exception raised inside it.\<close>

definition createddate_try :: "runtime \<Rightarrow> element option \<Rightarrow> py_exception + string option" where
  "createddate_try rt created =
     (case (case created of None \<Rightarrow> None | Some c \<Rightarrow> find_elem c ''date'') of
        None \<Rightarrow> Inr None
      | Some date_node \<Rightarrow>
          (case int_attr rt date_node ''year'' of
             Inl e \<Rightarrow> Inl e
           | Inr year \<Rightarrow>
          (case int_attr rt date_node ''month'' of
             Inl e \<Rightarrow> Inl e
           | Inr month \<Rightarrow>
          (case int_attr rt date_node ''day'' of
             Inl e \<Rightarrow> Inl e
           | Inr day \<Rightarrow>
               if year < 1900 \<or> month = 0 \<or> day = 0 then Inr None
               else (case datetime year month day of
                       Inl e \<Rightarrow> Inl e
                     | Inr dt \<Rightarrow> Inr (Some (strftime dt)))))))"

definition failed_line :: "runtime \<Rightarrow> py_exception \<Rightarrow> element option \<Rightarrow> string" where
  "failed_line rt e created =
     CROSS_MARK @ '' Failed to parse createddate: '' @ exc_str rt e @ '', raw=''
       @ (case created of None \<Rightarrow> ''None'' | Some c \<Rightarrow> tostring rt c)"

text \<open>
  The function returns the date string or \<^verbatim>\<open>None\<close>, and the log with what it appended.
  \<^verbatim>\<open>log\<close> is the sink of \<^verbatim>\<open>process_xml\<close>, which appends to \<^verbatim>\<open>debug_lines\<close>.
\<close>

definition parse_createddate ::
  "runtime \<Rightarrow> element option \<Rightarrow> string list \<Rightarrow> string option \<times> string list" where
  "parse_createddate rt created log =
     (case createddate_try rt created of
        Inr r \<Rightarrow> (r, log)
      | Inl e \<Rightarrow> (None, log @ [failed_line rt e created]))"

subsection \<open>Rows and the state of the walk\<close>

text \<open>
  A row is the list of eleven optional strings that the code builds, in the order of the
  CSV header; the fields carry the header's names, so \<^verbatim>\<open>row[4]\<close> is \<open>GUID\<close> and
  \<^verbatim>\<open>row[5]\<close> is \<open>CommentID\<close>.
\<close>

record row =
  Category :: "string option"
  Level :: "string option"
  Subfolder :: "string option"
  ViewName :: "string option"
  GUID :: "string option"
  CommentID :: "string option"
  Status :: "string option"
  User :: "string option"
  Body :: "string option"
  CreatedDate :: "string option"
  ImagePath :: "string option"

record walk_state =
  rows :: "row list"
  seen :: "(string option \<times> string option) set"
  view_counter :: int
  debug_lines :: "string list"

definition log_line :: "string \<Rightarrow> walk_state \<Rightarrow> walk_state" where
  "log_line message st = st\<lparr>debug_lines := debug_lines st @ [message]\<rparr>"

subsection \<open>add\_row\<close>

definition row_key :: "row \<Rightarrow> string option \<times> string option" where
  "row_key r = (GUID r, CommentID r)"

definition duplicate_line :: "row \<Rightarrow> string" where
  "duplicate_line r =
     WARNING_SIGN @ '' Duplicate skipped: GUID='' @ fmt (GUID r) @ '', CommentID=''
       @ fmt (CommentID r)"

definition add_row :: "row \<Rightarrow> walk_state \<Rightarrow> walk_state" where
  "add_row r st =
     (let key = row_key r in
      if key \<notin> seen st
      then st\<lparr>rows := rows st @ [r], seen := insert key (seen st)\<rparr>
      else log_line (duplicate_line r) st)"

subsection \<open>recurse\<close>

definition image_file :: "int \<Rightarrow> string" where
  "image_file n = IMAGE_FILE_PREFIX @ zfill 4 (str_int n) @ ''.jpg''"

definition entering_line :: "string list \<Rightarrow> string" where
  "entering_line new_path = OPEN_FOLDER @ '' Entering folder: '' @ join '' > '' new_path"

definition found_line :: "string \<Rightarrow> string \<Rightarrow> string \<Rightarrow> string" where
  "found_line view_name guid img =
     ''  '' @ EYES @ '' Found view: '' @ view_name @ '' (GUID='' @ guid @ '') ''
       @ RIGHT_ARROW @ '' '' @ img"

definition comment_line :: "string \<Rightarrow> string \<Rightarrow> string option \<Rightarrow> string" where
  "comment_line cid status user =
     ''    '' @ SPEECH_BALLOON @ '' Comment ID='' @ cid @ '', Status='' @ status
       @ '', User='' @ fmt user"

definition no_comments_line :: "string \<Rightarrow> string" where
  "no_comments_line view_name = ''    '' @ WARNING_SIGN @ '' No comments found for '' @ view_name"

text \<open>The three path columns of a row, as the two row literals compute them.\<close>

definition path_row :: "string list \<Rightarrow> row" where
  "path_row new_path =
     \<lparr>Category = (if length new_path > 0 then Some (new_path ! 0) else None),
      Level = (if length new_path > 1 then Some (new_path ! 1) else None),
      Subfolder = (if length new_path > 2 then Some (join '' > '' (drop 2 new_path)) else None),
      ViewName = None, GUID = None, CommentID = None, Status = None, User = None,
      Body = None, CreatedDate = None, ImagePath = None\<rparr>"

text \<open>The body of the loop over the comments of a view.\<close>

definition visit_comment ::
  "runtime \<Rightarrow> string list \<Rightarrow> string \<Rightarrow> string \<Rightarrow> string \<Rightarrow> element \<Rightarrow> walk_state
     \<Rightarrow> walk_state" where
  "visit_comment rt new_path view_name guid img comment st =
     (let cid = attrib_get comment ''id'' [];
          status = attrib_get comment ''status'' [];
          user = findtext comment ''user'';
          body = findtext comment ''body'';
          created = find_elem comment ''createddate'';
          (created_str, log) =
            (if created \<noteq> None then parse_createddate rt created (debug_lines st)
             else (None, debug_lines st));
          st1 = log_line (comment_line cid status user) (st\<lparr>debug_lines := log\<rparr>)
      in add_row
           ((path_row new_path)
              \<lparr>ViewName := Some view_name, GUID := Some guid, CommentID := Some cid,
               Status := Some status, User := user, Body := body,
               CreatedDate := created_str, ImagePath := Some img\<rparr>)
           st1)"

text \<open>The body of the loop over the views of a folder.\<close>

definition visit_view :: "runtime \<Rightarrow> string list \<Rightarrow> element \<Rightarrow> walk_state \<Rightarrow> walk_state" where
  "visit_view rt new_path view st =
     (let st1 = st\<lparr>view_counter := view_counter st + 1\<rparr>;
          view_name = attrib_get view ''name'' [];
          guid = attrib_get view ''guid'' [];
          img = image_file (view_counter st1);
          st2 = log_line (found_line view_name guid img) st1
      in case find_elem view ''comments'' of
           Some comments \<Rightarrow>
             fold (visit_comment rt new_path view_name guid img) (findall comments ''comment'') st2
         | None \<Rightarrow>
             add_row
               ((path_row new_path)
                  \<lparr>ViewName := Some view_name, GUID := Some guid, ImagePath := Some img\<rparr>)
               (log_line (no_comments_line view_name) st2))"

lemma size_list_filter_le: "size_list f (filter P xs) \<le> size_list f xs"
  by (induction xs) auto

text \<open>
  \<^verbatim>\<open>recurse\<close>, with the loop over the child folders as \<open>recurse_each\<close>. The lists
  \<^verbatim>\<open>rows\<close>, \<^verbatim>\<open>seen\<close>, \<^verbatim>\<open>view_counter\<close> and the log are the state, passed in
  and returned.
\<close>

function recurse :: "runtime \<Rightarrow> element \<Rightarrow> string list \<Rightarrow> walk_state \<Rightarrow> walk_state"
  and recurse_each :: "runtime \<Rightarrow> element list \<Rightarrow> string list \<Rightarrow> walk_state \<Rightarrow> walk_state"
where
  "recurse rt folder path st =
     (let folder_name = attrib_get folder ''name'' [];
          new_path = path @ [folder_name];
          st1 = log_line (entering_line new_path) st;
          st2 = fold (visit_view rt new_path) (findall folder ''view'') st1
      in recurse_each rt (findall folder ''viewfolder'') new_path st2)"
| "recurse_each rt [] new_path st = st"
| "recurse_each rt (child # rest) new_path st =
     recurse_each rt rest new_path (recurse rt child new_path st)"
  by pat_completeness auto

termination
proof (relation "measure (\<lambda>x. case x of
          Inl (rt, folder, path, st) \<Rightarrow> 2 * size folder
        | Inr (rt, cs, path, st) \<Rightarrow> 2 * size_list size cs + 1)")
  show "wf (measure (\<lambda>x. case x of
          Inl (rt, folder, path, st) \<Rightarrow> 2 * size folder
        | Inr (rt, cs, path, st) \<Rightarrow> 2 * size_list size cs + 1))"
    by simp
next
  fix rt :: runtime and folder :: element and path xa :: "string list"
    and st xc :: walk_state
  have "size_list size (findall folder ''viewfolder'') \<le> size_list size (children folder)"
    unfolding findall_def by (rule size_list_filter_le)
  moreover have "size_list size (children folder) < size folder"
    by (cases folder) simp
  ultimately show "(Inr (rt, findall folder ''viewfolder'', xa, xc), Inl (rt, folder, path, st))
      \<in> measure (\<lambda>x. case x of
          Inl (rt, folder, path, st) \<Rightarrow> 2 * size folder
        | Inr (rt, cs, path, st) \<Rightarrow> 2 * size_list size cs + 1)"
    by simp
qed auto

declare recurse.simps [simp del]

text \<open>
  \<^verbatim>\<open>process_xml\<close>, from the parsed root: \<^verbatim>\<open>root.findall("./viewpoints/viewfolder")\<close>
  is every \<^verbatim>\<open>viewfolder\<close> child of every \<^verbatim>\<open>viewpoints\<close> child of the root, in
  document order. The walk starts from empty lists and the counter at 0.
\<close>

definition init_state :: walk_state where
  "init_state = \<lparr>rows = [], seen = {}, view_counter = 0, debug_lines = []\<rparr>"

definition top_folders :: "element \<Rightarrow> element list" where
  "top_folders root = concat (map (\<lambda>vp. findall vp ''viewfolder'') (findall root ''viewpoints''))"

definition walk :: "runtime \<Rightarrow> element \<Rightarrow> walk_state" where
  "walk rt root = recurse_each rt (top_folders root) [] init_state"

definition process_xml :: "runtime \<Rightarrow> element \<Rightarrow> row list \<times> string list" where
  "process_xml rt root = (let st = walk rt root in (rows st, debug_lines st))"

subsection \<open>The interpreter's limit on nested calls\<close>

text \<open>
  The interpreter bounds the nesting of calls, and the walk is recursive, so a call can
  fail with \<^verbatim>\<open>RecursionError\<close>. Here the functions are given once more with that
  failure written out. \<open>frames\<close> is the number of nested calls of the script's own
  functions (\<^verbatim>\<open>recurse\<close>, \<^verbatim>\<open>add_row\<close>, \<^verbatim>\<open>parse_createddate\<close> and the
  \<^verbatim>\<open>log\<close> closure) that the interpreter still allows at that point: a call made when
  none is left fails, and the body of a call runs with one less. Calls into the library are
  taken not to nest. Nothing in the script catches the failure below \<^verbatim>\<open>main\<close>: the
  \<^verbatim>\<open>try\<close> of \<^verbatim>\<open>parse_createddate\<close> encloses library calls only, and its call of
  \<^verbatim>\<open>log\<close> is in the handler.
\<close>

datatype walk_error = RecursionError










subsection \<open>A runtime for the examples\<close>

text \<open>
  \<open>dec_int\<close> reads a plain decimal literal (digits, after an optional minus sign) and
  rejects every other string; on these strings it is what \<^verbatim>\<open>int\<close> returns. The examples
  below use it with short fixed texts for exceptions and element dumps.
\<close>

fun dec_nat :: "nat \<Rightarrow> string \<Rightarrow> nat option" where
  "dec_nat acc [] = Some acc"
| "dec_nat acc (c # cs) =
     (if (48::nat) \<le> of_char c \<and> of_char c \<le> (57::nat)
      then dec_nat (10 * acc + (of_char c - 48)) cs else None)"

definition dec_int :: "string \<Rightarrow> int option" where
  "dec_int s =
     (case s of
        [] \<Rightarrow> None
      | c # cs \<Rightarrow>
          if c = CHR ''-''
          then (if cs = [] then None else map_option (\<lambda>n. - int n) (dec_nat 0 cs))
          else map_option int (dec_nat 0 s))"

definition sample_exc_str :: "py_exception \<Rightarrow> string" where
  "sample_exc_str e =
     (case e of
        IntLiteralError s \<Rightarrow> ''invalid literal for int() with base 10: '' @ s
      | YearOutOfRange y \<Rightarrow> ''year '' @ str_int y @ '' is out of range''
      | MonthOutOfRange m \<Rightarrow> ''month must be in 1..12''
      | DayOutOfRange y m d \<Rightarrow> ''day is out of range for month'')"

definition sample_tostring :: "element \<Rightarrow> string" where
  "sample_tostring e = ''<'' @ tag e @ '' ... />''"

definition rt0 :: runtime where
  "rt0 = \<lparr>py_int = dec_int, exc_str = sample_exc_str, tostring = sample_tostring\<rparr>"

section \<open>1717 N FLAG/DB/ParseXml.py\<close>

text \<open>
  The older script keeps \<^verbatim>\<open>rows\<close>, \<^verbatim>\<open>debug_lines\<close>, \<^verbatim>\<open>seen\<close> and
  \<^verbatim>\<open>view_counter\<close> in module variables; here they are the same state record. Its
  functions are translated one by one, under the prefix \<open>legacy\<close>.
\<close>

definition legacy_parse_createddate ::
  "runtime \<Rightarrow> element option \<Rightarrow> string list \<Rightarrow> string option \<times> string list" where
  "legacy_parse_createddate rt created dl =
     (case createddate_try rt created of
        Inr r \<Rightarrow> (r, dl)
      | Inl e \<Rightarrow>
          (None,
           dl @ [CROSS_MARK @ '' Failed to parse createddate: '' @ exc_str rt e @ '', raw=''
                   @ (case created of None \<Rightarrow> ''None'' | Some c \<Rightarrow> tostring rt c)]))"

definition legacy_add_row :: "row \<Rightarrow> walk_state \<Rightarrow> walk_state" where
  "legacy_add_row r st =
     (let key = (GUID r, CommentID r) in
      if key \<notin> seen st
      then st\<lparr>rows := rows st @ [r], seen := insert key (seen st)\<rparr>
      else st\<lparr>debug_lines := debug_lines st
             @ [WARNING_SIGN @ '' Duplicate skipped: GUID='' @ fmt (GUID r) @ '', CommentID=''
                  @ fmt (CommentID r)]\<rparr>)"

definition legacy_image_file :: "int \<Rightarrow> string" where
  "legacy_image_file n = ''vp'' @ zfill 4 (str_int n) @ ''.jpg''"

definition legacy_visit_comment ::
  "runtime \<Rightarrow> string list \<Rightarrow> string \<Rightarrow> string \<Rightarrow> string \<Rightarrow> element \<Rightarrow> walk_state
     \<Rightarrow> walk_state" where
  "legacy_visit_comment rt new_path view_name guid img comment st =
     (let cid = attrib_get comment ''id'' [];
          status = attrib_get comment ''status'' [];
          user = findtext comment ''user'';
          body = findtext comment ''body'';
          created = find_elem comment ''createddate'';
          (created_str, dl) =
            (if created \<noteq> None then legacy_parse_createddate rt created (debug_lines st)
             else (None, debug_lines st));
          st1 = st\<lparr>debug_lines := dl @ [comment_line cid status user]\<rparr>
      in legacy_add_row
           ((path_row new_path)
              \<lparr>ViewName := Some view_name, GUID := Some guid, CommentID := Some cid,
               Status := Some status, User := user, Body := body,
               CreatedDate := created_str, ImagePath := Some img\<rparr>)
           st1)"

definition legacy_visit_view ::
  "runtime \<Rightarrow> string list \<Rightarrow> element \<Rightarrow> walk_state \<Rightarrow> walk_state" where
  "legacy_visit_view rt new_path view st =
     (let st1 = st\<lparr>view_counter := view_counter st + 1\<rparr>;
          view_name = attrib_get view ''name'' [];
          guid = attrib_get view ''guid'' [];
          img = legacy_image_file (view_counter st1);
          st2 = st1\<lparr>debug_lines := debug_lines st1 @ [found_line view_name guid img]\<rparr>
      in case find_elem view ''comments'' of
           Some comments \<Rightarrow>
             fold (legacy_visit_comment rt new_path view_name guid img)
               (findall comments ''comment'') st2
         | None \<Rightarrow>
             legacy_add_row
               ((path_row new_path)
                  \<lparr>ViewName := Some view_name, GUID := Some guid, ImagePath := Some img\<rparr>)
               (st2\<lparr>debug_lines := debug_lines st2 @ [no_comments_line view_name]\<rparr>))"

function legacy_recurse ::
    "runtime \<Rightarrow> element \<Rightarrow> string list \<Rightarrow> walk_state \<Rightarrow> walk_state"
  and legacy_recurse_each ::
    "runtime \<Rightarrow> element list \<Rightarrow> string list \<Rightarrow> walk_state \<Rightarrow> walk_state"
where
  "legacy_recurse rt folder path st =
     (let folder_name = attrib_get folder ''name'' [];
          new_path = path @ [folder_name];
          st1 = st\<lparr>debug_lines := debug_lines st @ [entering_line new_path]\<rparr>;
          st2 = fold (legacy_visit_view rt new_path) (findall folder ''view'') st1
      in legacy_recurse_each rt (findall folder ''viewfolder'') new_path st2)"
| "legacy_recurse_each rt [] new_path st = st"
| "legacy_recurse_each rt (child # rest) new_path st =
     legacy_recurse_each rt rest new_path (legacy_recurse rt child new_path st)"
  by pat_completeness auto

termination
proof (relation "measure (\<lambda>x. case x of
          Inl (rt, folder, path, st) \<Rightarrow> 2 * size folder
        | Inr (rt, cs, path, st) \<Rightarrow> 2 * size_list size cs + 1)")
  show "wf (measure (\<lambda>x. case x of
          Inl (rt, folder, path, st) \<Rightarrow> 2 * size folder
        | Inr (rt, cs, path, st) \<Rightarrow> 2 * size_list size cs + 1))"
    by simp
next
  fix rt :: runtime and folder :: element and path xa :: "string list"
    and st xc :: walk_state
  have "size_list size (findall folder ''viewfolder'') \<le> size_list size (children folder)"
    unfolding findall_def by (rule size_list_filter_le)
  moreover have "size_list size (children folder) < size folder"
    by (cases folder) simp
  ultimately show "(Inr (rt, findall folder ''viewfolder'', xa, xc), Inl (rt, folder, path, st))
      \<in> measure (\<lambda>x. case x of
          Inl (rt, folder, path, st) \<Rightarrow> 2 * size folder
        | Inr (rt, cs, path, st) \<Rightarrow> 2 * size_list size cs + 1)"
    by simp
qed auto

declare legacy_recurse.simps [simp del]

text \<open>The script's top level, from the parsed root to the two lists it writes out.\<close>

definition legacy_walk :: "runtime \<Rightarrow> element \<Rightarrow> walk_state" where
  "legacy_walk rt root = legacy_recurse_each rt (top_folders root) [] init_state"

definition legacy_script :: "runtime \<Rightarrow> element \<Rightarrow> row list \<times> string list" where
  "legacy_script rt root = (let st = legacy_walk rt root in (rows st, debug_lines st))"

section \<open>The views of a document\<close>

text \<open>
  The views the walk discovers, in the order of the traversal: the \<^verbatim>\<open>view\<close> children of
  a folder, then those of its child folders, at any depth.
\<close>

function folder_views :: "element \<Rightarrow> element list"
  and folders_views :: "element list \<Rightarrow> element list"
where
  "folder_views folder = findall folder ''view'' @ folders_views (findall folder ''viewfolder'')"
| "folders_views [] = []"
| "folders_views (child # rest) = folder_views child @ folders_views rest"
  by pat_completeness auto

termination
proof (relation "measure (\<lambda>x. case x of
          Inl folder \<Rightarrow> 2 * size folder
        | Inr cs \<Rightarrow> 2 * size_list size cs + 1)")
  show "wf (measure (\<lambda>x. case x of
          Inl folder \<Rightarrow> 2 * size folder
        | Inr cs \<Rightarrow> 2 * size_list size cs + 1))"
    by simp
next
  fix folder :: element
  have "size_list size (findall folder ''viewfolder'') \<le> size_list size (children folder)"
    unfolding findall_def by (rule size_list_filter_le)
  moreover have "size_list size (children folder) < size folder"
    by (cases folder) simp
  ultimately show "(Inr (findall folder ''viewfolder''), Inl folder)
      \<in> measure (\<lambda>x. case x of
          Inl folder \<Rightarrow> 2 * size folder
        | Inr cs \<Rightarrow> 2 * size_list size cs + 1)"
    by simp
qed auto

declare folder_views.simps [simp del]

definition document_views :: "element \<Rightarrow> element list" where
  "document_views root = folders_views (top_folders root)"

text \<open>
  The columns that every row of one view shares: the three path columns, the view's name
  and identifier, and its image reference.
\<close>

definition static_cols :: "string list \<Rightarrow> string \<Rightarrow> string \<Rightarrow> string \<Rightarrow> row \<Rightarrow> bool" where
  "static_cols p vn g img r =
     (Category r = Category (path_row p) \<and> Level r = Level (path_row p)
      \<and> Subfolder r = Subfolder (path_row p) \<and> ViewName r = Some vn \<and> GUID r = Some g
      \<and> ImagePath r = Some img)"

text \<open>
  The "Found view" lines of the log are the only lines that start with two spaces and
  the first byte of the eyes symbol; \<open>found_lines c vs\<close> are the lines that the views
  \<open>vs\<close> get when the counter stands at \<open>c\<close> before the first of them.
\<close>

definition is_found_line :: "string \<Rightarrow> bool" where
  "is_found_line l = (take 3 l = [CHR '' '', CHR '' '', CHR 0xF0])"

fun found_lines :: "int \<Rightarrow> element list \<Rightarrow> string list" where
  "found_lines c [] = []"
| "found_lines c (v # vs) =
     found_line (attrib_get v ''name'' []) (attrib_get v ''guid'' []) (image_file (c + 1))
       # found_lines (c + 1) vs"

text \<open>A comment's \<^verbatim>\<open>createddate\<close> element with the three fields given, for the examples.\<close>

definition sample_date :: "string \<Rightarrow> string \<Rightarrow> string \<Rightarrow> element" where
  "sample_date y m d =
     Element ''createddate'' [] None
       [Element ''date'' [(''year'', y), (''month'', m), (''day'', d)] None []]"

text \<open>
  What \<^verbatim>\<open>add_row\<close> maintains: the accepted rows have pairwise different keys, and
  every key of an accepted row is registered in \<^verbatim>\<open>seen\<close>.
\<close>

definition dedup_inv :: "walk_state \<Rightarrow> bool" where
  "dedup_inv st = (distinct (map row_key (rows st)) \<and> row_key ` set (rows st) \<subseteq> seen st)"

text \<open>
  Documents for the examples: one folder \<^verbatim>\<open>A\<close> with one view that has the comments
  C1, C2 and C1 again; and one folder with two views that have no comments and share an
  identifier. \<open>bare_comment\<close> is a comment with no attribute and no child.
\<close>

definition sample_doc :: element where
  "sample_doc =
     Element ''exchange'' [] None
       [Element ''viewpoints'' [] None
          [Element ''viewfolder'' [(''name'', ''A'')] None
             [Element ''view'' [(''name'', ''V1''), (''guid'', ''G1'')] None
                [Element ''comments'' [] None
                   [Element ''comment'' [(''id'', ''C1'')] None [],
                    Element ''comment'' [(''id'', ''C2'')] None [],
                    Element ''comment'' [(''id'', ''C1'')] None []]]]]]"

definition sample_row :: row where
  "sample_row = (path_row [''A''])\<lparr>ViewName := Some ''V1'', GUID := Some ''G1''\<rparr>"

definition twin_views :: element where
  "twin_views =
     Element ''exchange'' [] None
       [Element ''viewpoints'' [] None
          [Element ''viewfolder'' [(''name'', ''A'')] None
             [Element ''view'' [(''name'', ''V1''), (''guid'', ''G'')] None [],
              Element ''view'' [(''name'', ''V2''), (''guid'', ''G'')] None []]]]"


text \<open>
  Comparing the two scripts: \<open>relabel\<close> puts \<^verbatim>\<open>navisworks_views_comments_\<close> in front
  of a row's image path; two log lines are related when they are equal, or are the "Found
  view" lines of the same view and number with each script's own image name; two states
  are related when their rows agree up to \<open>relabel\<close>, their keys and counters are equal
  and their logs are related line by line.
\<close>

definition relabel :: "row \<Rightarrow> row" where
  "relabel r = r\<lparr>ImagePath := map_option (\<lambda>s. ''navisworks_views_comments_'' @ s) (ImagePath r)\<rparr>"

definition line_rel :: "string \<Rightarrow> string \<Rightarrow> bool" where
  "line_rel old new =
     (old = new
      \<or> (\<exists>vn g n. old = found_line vn g (legacy_image_file n)
                  \<and> new = found_line vn g (image_file n)))"

definition sim :: "walk_state \<Rightarrow> walk_state \<Rightarrow> bool" where
  "sim old new =
     (rows new = map relabel (rows old) \<and> seen new = seen old
      \<and> view_counter new = view_counter old
      \<and> list_all2 line_rel (debug_lines old) (debug_lines new))"

text \<open>
  The accumulated folder path of each view of a folder, in the order of the traversal:
  the names of the folders from the top-level one down to the folder that holds the view,
  after the path \<open>path\<close> that leads to the folder. A folder without a name contributes
  the empty string.
\<close>

function folder_view_paths :: "string list \<Rightarrow> element \<Rightarrow> (string list \<times> element) list"
  and folders_view_paths :: "string list \<Rightarrow> element list \<Rightarrow> (string list \<times> element) list"
where
  "folder_view_paths path folder =
     map (Pair (path @ [attrib_get folder ''name'' []])) (findall folder ''view'')
       @ folders_view_paths (path @ [attrib_get folder ''name'' []])
           (findall folder ''viewfolder'')"
| "folders_view_paths path [] = []"
| "folders_view_paths path (child # rest) =
     folder_view_paths path child @ folders_view_paths path rest"
  by pat_completeness auto

termination
proof (relation "measure (\<lambda>x. case x of
          Inl (path, folder) \<Rightarrow> 2 * size folder
        | Inr (path, cs) \<Rightarrow> 2 * size_list size cs + 1)")
  show "wf (measure (\<lambda>x. case x of
          Inl (path, folder) \<Rightarrow> 2 * size folder
        | Inr (path, cs) \<Rightarrow> 2 * size_list size cs + 1))"
    by simp
next
  fix path :: "string list" and folder :: element
  have "size_list size (findall folder ''viewfolder'') \<le> size_list size (children folder)"
    unfolding findall_def by (rule size_list_filter_le)
  moreover have "size_list size (children folder) < size folder"
    by (cases folder) simp
  ultimately show "(Inr (path @ [attrib_get folder ''name'' []], findall folder ''viewfolder''),
        Inl (path, folder))
      \<in> measure (\<lambda>x. case x of
          Inl (path, folder) \<Rightarrow> 2 * size folder
        | Inr (path, cs) \<Rightarrow> 2 * size_list size cs + 1)"
    by simp
qed auto

declare folder_view_paths.simps [simp del]

definition document_view_paths :: "element \<Rightarrow> (string list \<times> element) list" where
  "document_view_paths root = folders_view_paths [] (top_folders root)"

text \<open>
  Two states with the same accepted rows, the same registered keys and the same counter;
  their logs may differ.
\<close>

definition same_records :: "walk_state \<Rightarrow> walk_state \<Rightarrow> bool" where
  "same_records a b = (rows a = rows b \<and> seen a = seen b \<and> view_counter a = view_counter b)"

text \<open>A document with one commented view under the folders Cat, Sub, D1, D2.\<close>

definition nested_doc :: element where
  "nested_doc =
     Element ''exchange'' [] None
       [Element ''viewpoints'' [] None
          [Element ''viewfolder'' [(''name'', ''Cat'')] None
             [Element ''viewfolder'' [(''name'', ''Sub'')] None
                [Element ''viewfolder'' [(''name'', ''D1'')] None
                   [Element ''viewfolder'' [(''name'', ''D2'')] None
                      [Element ''view'' [(''name'', ''V''), (''guid'', ''G'')] None
                         [Element ''comments'' [] None
                            [Element ''comment'' [(''id'', ''C1''), (''status'', ''new'')] None
                               []]]]]]]]]"





section \<open>Basic facts about the steps of the walk\<close>

lemma log_line_simps [simp]:
  "view_counter (log_line m st) = view_counter st"
  "rows (log_line m st) = rows st"
  "seen (log_line m st) = seen st"
  "debug_lines (log_line m st) = debug_lines st @ [m]"
  by (simp_all add: log_line_def)

lemma add_row_counter [simp]: "view_counter (add_row r st) = view_counter st"
  by (simp add: add_row_def Let_def)

lemma add_row_rows:
  "rows (add_row r st) = rows st @ (if row_key r \<in> seen st then [] else [r])"
  by (simp add: add_row_def Let_def)

lemma visit_comment_counter [simp]:
  "view_counter (visit_comment rt p vn g img c st) = view_counter st"
  by (simp add: visit_comment_def Let_def split: prod.splits)

lemma visit_comment_rows:
  "\<exists>new. rows (visit_comment rt p vn g img c st) = rows st @ new
     \<and> list_all (static_cols p vn g img) new"
  by (simp add: visit_comment_def Let_def add_row_rows static_cols_def split: prod.splits)

lemma fold_visit_comment_counter [simp]:
  "view_counter (fold (visit_comment rt p vn g img) cs st) = view_counter st"
  by (induction cs arbitrary: st) simp_all

lemma fold_visit_comment_rows:
  "\<exists>new. rows (fold (visit_comment rt p vn g img) cs st) = rows st @ new
     \<and> list_all (static_cols p vn g img) new"
proof (induction cs arbitrary: st)
  case Nil
  show ?case by simp
next
  case (Cons c cs)
  obtain n1 where n1: "rows (visit_comment rt p vn g img c st) = rows st @ n1"
    "list_all (static_cols p vn g img) n1"
    using visit_comment_rows by blast
  obtain n2 where n2:
    "rows (fold (visit_comment rt p vn g img) cs (visit_comment rt p vn g img c st))
       = rows (visit_comment rt p vn g img c st) @ n2"
    "list_all (static_cols p vn g img) n2"
    using Cons.IH by blast
  show ?case using n1 n2 by (intro exI [of _ "n1 @ n2"]) simp
qed

lemma visit_view_counter [simp]:
  "view_counter (visit_view rt p v st) = view_counter st + 1"
  by (simp add: visit_view_def Let_def split: option.splits)

lemma visit_view_rows:
  "\<exists>new. rows (visit_view rt p v st) = rows st @ new
     \<and> list_all (static_cols p (attrib_get v ''name'' []) (attrib_get v ''guid'' [])
          (image_file (view_counter st + 1))) new"
proof (cases "find_elem v ''comments''")
  case None
  then show ?thesis
    by (simp add: visit_view_def Let_def add_row_rows static_cols_def)
next
  case (Some c)
  then show ?thesis
    using fold_visit_comment_rows [of rt p "attrib_get v ''name'' []" "attrib_get v ''guid'' []"
        "image_file (view_counter st + 1)" "findall c ''comment''"
        "log_line (found_line (attrib_get v ''name'' []) (attrib_get v ''guid'' [])
           (image_file (view_counter st + 1))) (st\<lparr>view_counter := view_counter st + 1\<rparr>)"]
    by (simp add: visit_view_def Let_def)
qed

section \<open>A view whose comments container is empty\<close>

text \<open>
  C9. When the \<^verbatim>\<open>comments\<close> element of a view is present and holds no \<^verbatim>\<open>comment\<close>,
  visiting the view adds no row and no "No comments found" line: it takes the next
  sequence number and logs the "Found view" line, and nothing else changes.
\<close>

theorem empty_comments_container:
  "find_elem view ''comments'' = Some c \<Longrightarrow> findall c ''comment'' = [] \<Longrightarrow>
   visit_view rt new_path view st =
     st\<lparr>view_counter := view_counter st + 1,
        debug_lines := debug_lines st
          @ [found_line (attrib_get view ''name'' []) (attrib_get view ''guid'' [])
               (image_file (view_counter st + 1))]\<rparr>"
  by (simp add: visit_view_def Let_def log_line_def)

theorem empty_comments_container_witness:
  "find_elem (Element ''view'' [(''name'', ''V'')] None [Element ''comments'' [] None []])
       ''comments'' = Some (Element ''comments'' [] None [])
   \<and> findall (Element ''comments'' [] None []) ''comment'' = []
   \<and> visit_view rt0 [''A'']
       (Element ''view'' [(''name'', ''V'')] None [Element ''comments'' [] None []]) init_state
     = \<lparr>rows = [], seen = {}, view_counter = 1,
        debug_lines = [found_line ''V'' [] ''navisworks_views_comments_vp0001.jpg'']\<rparr>"
proof -
  have a: "find_elem (Element ''view'' [(''name'', ''V'')] None [Element ''comments'' [] None []])
       ''comments'' = Some (Element ''comments'' [] None [])"
    by (simp add: find_elem_def)
  have b: "findall (Element ''comments'' [] None []) ''comment'' = []"
    by (simp add: findall_def)
  have c: "image_file 1 = ''navisworks_views_comments_vp0001.jpg''"
    by code_simp
  show ?thesis
    using empty_comments_container [OF a b, of rt0 "[''A'']" init_state] a b c
    by (simp add: init_state_def attrib_get_def)
qed

section \<open>The "Found view" lines and the counter\<close>

lemma is_found_line_simps [simp]:
  "is_found_line (found_line vn g img)"
  "\<not> is_found_line (entering_line p)"
  "\<not> is_found_line (comment_line cid s u)"
  "\<not> is_found_line (no_comments_line vn)"
  "\<not> is_found_line (duplicate_line r)"
  "\<not> is_found_line (failed_line rt e created)"
  by (simp_all add: is_found_line_def found_line_def entering_line_def comment_line_def
      no_comments_line_def duplicate_line_def failed_line_def EYES_def OPEN_FOLDER_def
      WARNING_SIGN_def CROSS_MARK_def)

lemma found_lines_append:
  "found_lines c (xs @ ys) = found_lines c xs @ found_lines (c + int (length xs)) ys"
  by (induction xs arbitrary: c) (simp_all add: algebra_simps)

lemma length_found_lines [simp]: "length (found_lines c vs) = length vs"
  by (induction vs arbitrary: c) simp_all

lemma found_lines_nth:
  "i < length vs \<Longrightarrow> found_lines c vs ! i =
     found_line (attrib_get (vs ! i) ''name'' []) (attrib_get (vs ! i) ''guid'' [])
       (image_file (c + int i + 1))"
proof (induction vs arbitrary: c i)
  case Nil
  then show ?case by simp
next
  case (Cons v vs)
  show ?case
  proof (cases i)
    case 0
    then show ?thesis by simp
  next
    case (Suc j)
    with Cons.prems have "j < length vs" by simp
    from Cons.IH [OF this, of "c + 1"] Suc show ?thesis by (simp add: algebra_simps)
  qed
qed

lemma add_row_found [simp]:
  "filter is_found_line (debug_lines (add_row r st)) = filter is_found_line (debug_lines st)"
  by (simp add: add_row_def Let_def)

lemma parse_createddate_found [simp]:
  "filter is_found_line (snd (parse_createddate rt created log)) = filter is_found_line log"
  by (simp add: parse_createddate_def split: sum.splits)

lemma parse_createddate_found_pair:
  "parse_createddate rt created log = (x1, x2) \<Longrightarrow>
   filter is_found_line x2 = filter is_found_line log"
  using parse_createddate_found [of rt created log] by simp

lemma visit_comment_found [simp]:
  "filter is_found_line (debug_lines (visit_comment rt p vn g img c st))
     = filter is_found_line (debug_lines st)"
  by (auto simp add: visit_comment_def Let_def split: prod.splits
      dest: parse_createddate_found_pair)

lemma fold_visit_comment_found [simp]:
  "filter is_found_line (debug_lines (fold (visit_comment rt p vn g img) cs st))
     = filter is_found_line (debug_lines st)"
  by (induction cs arbitrary: st) simp_all

lemma visit_view_found:
  "filter is_found_line (debug_lines (visit_view rt p v st))
     = filter is_found_line (debug_lines st)
         @ [found_line (attrib_get v ''name'' []) (attrib_get v ''guid'' [])
              (image_file (view_counter st + 1))]"
  by (simp add: visit_view_def Let_def split: option.splits)

lemma fold_visit_view_counter [simp]:
  "view_counter (fold (visit_view rt p) vs st) = view_counter st + int (length vs)"
  by (induction vs arbitrary: st) simp_all

lemma fold_visit_view_found:
  "filter is_found_line (debug_lines (fold (visit_view rt p) vs st))
     = filter is_found_line (debug_lines st) @ found_lines (view_counter st) vs"
  by (induction vs arbitrary: st) (simp_all add: visit_view_found)

lemma recurse_found_counter:
  "view_counter (recurse rt folder path st) = view_counter st + int (length (folder_views folder))
   \<and> filter is_found_line (debug_lines (recurse rt folder path st))
       = filter is_found_line (debug_lines st) @ found_lines (view_counter st) (folder_views folder)"
  "view_counter (recurse_each rt cs path st) = view_counter st + int (length (folders_views cs))
   \<and> filter is_found_line (debug_lines (recurse_each rt cs path st))
       = filter is_found_line (debug_lines st) @ found_lines (view_counter st) (folders_views cs)"
proof (induction rt folder path st and rt cs path st rule: recurse_recurse_each.induct)
  case (1 rt folder path st)
  show ?case
    using "1.IH" [OF refl refl refl refl]
    by (simp add: recurse.simps [of rt folder] folder_views.simps [of folder] Let_def
        fold_visit_view_found found_lines_append)
next
  case (2 rt new_path st)
  show ?case by simp
next
  case (3 rt child rest new_path st)
  show ?case
    using "3.IH" by (simp add: found_lines_append)
qed


lemma found_lines_enumerate:
  "found_lines (c + int k) vs =
     map (\<lambda>(i, v). found_line (attrib_get v ''name'' []) (attrib_get v ''guid'' [])
            (image_file (c + int i + 1))) (enumerate k vs)"
proof (induction vs arbitrary: k)
  case Nil
  show ?case by simp
next
  case (Cons v vs)
  have "found_lines (c + int k + 1) vs = found_lines (c + int (Suc k)) vs"
    by (simp add: algebra_simps)
  with Cons.IH [of "Suc k"] show ?case by simp
qed

lemma walk_found_counter:
  "view_counter (walk rt root) = int (length (document_views root))"
  "filter is_found_line (debug_lines (walk rt root)) = found_lines 0 (document_views root)"
  using recurse_found_counter(2) [of rt "top_folders root" "[]" init_state]
  by (simp_all add: walk_def document_views_def init_state_def)

section \<open>The sequence counter\<close>

text \<open>
  C2. The counter goes up by exactly one for each view, whatever the number of its
  comments (the loop over the comments leaves it alone), so a folder moves it by the
  number of views in the folder and below, at any depth, and the whole walk ends with the
  number of views of the document. The "Found view" lines of the log announce the numbers
  1, 2, ..., one per view in traversal order, so no number is used twice.
\<close>

theorem sequence_counter:
  "view_counter (visit_view rt p view st) = view_counter st + 1
   \<and> view_counter (fold (visit_comment rt p vn g img) cs st) = view_counter st
   \<and> view_counter (recurse rt folder path st)
       = view_counter st + int (length (folder_views folder))
   \<and> view_counter (walk rt root) = int (length (document_views root))
   \<and> filter is_found_line (debug_lines (walk rt root))
       = map (\<lambda>(k, v). found_line (attrib_get v ''name'' []) (attrib_get v ''guid'' [])
                (image_file (int k)))
           (enumerate 1 (document_views root))"
proof -
  have "found_lines (-1 + int 1) (document_views root)
      = map (\<lambda>(k, v). found_line (attrib_get v ''name'' []) (attrib_get v ''guid'' [])
                (image_file (-1 + int k + 1)))
           (enumerate 1 (document_views root))"
    by (rule found_lines_enumerate)
  then have "found_lines 0 (document_views root)
      = map (\<lambda>(k, v). found_line (attrib_get v ''name'' []) (attrib_get v ''guid'' [])
                (image_file (int k)))
           (enumerate 1 (document_views root))"
    by simp
  then show ?thesis
    using recurse_found_counter(1) [of rt folder path st] walk_found_counter [of rt root]
    by simp
qed

section \<open>Decimal strings\<close>

lemma of_char_digit: "d < 10 \<Longrightarrow> of_char (digit_char d) = (48 + d :: nat)"
  by (simp add: digit_char_def)

lemma digit_char_not_sign:
  assumes "d < 10"
  shows "digit_char d \<noteq> CHR ''-''" and "digit_char d \<noteq> CHR ''+''"
proof -
  have d: "of_char (digit_char d) = (48 + d :: nat)"
    using assms by (rule of_char_digit)
  show "digit_char d \<noteq> CHR ''-''"
  proof
    assume "digit_char d = CHR ''-''"
    then have "of_char (digit_char d) = (45 :: nat)" by simp
    with d show False by simp
  qed
  show "digit_char d \<noteq> CHR ''+''"
  proof
    assume "digit_char d = CHR ''+''"
    then have "of_char (digit_char d) = (43 :: nat)" by simp
    with d show False by simp
  qed
qed

lemma str_nat_hd: "\<exists>d cs. d < 10 \<and> str_nat n = digit_char d # cs"
proof (induction n rule: str_nat.induct)
  case (1 n)
  show ?case
  proof (cases "n < 10")
    case True
    then show ?thesis by (subst str_nat.simps) auto
  next
    case False
    from "1.IH" [OF False] obtain d cs where "d < 10" "str_nat (n div 10) = digit_char d # cs"
      by blast
    with False show ?thesis by (subst str_nat.simps) auto
  qed
qed

lemma zfill_str_nat:
  "zfill w (str_nat n) = replicate (w - length (str_nat n)) CHR ''0'' @ str_nat n"
proof -
  obtain d cs where d: "d < 10" "str_nat n = digit_char d # cs"
    using str_nat_hd by blast
  show ?thesis
    using digit_char_not_sign [OF d(1)] d(2) by (simp add: zfill_def)
qed

lemma dec_nat_snoc:
  "d < 10 \<Longrightarrow> dec_nat acc (s @ [digit_char d]) = map_option (\<lambda>a. 10 * a + d) (dec_nat acc s)"
  by (induction s arbitrary: acc) (simp_all add: of_char_digit)

lemma dec_nat_str_nat: "dec_nat 0 (str_nat n) = Some n"
proof (induction n rule: str_nat.induct)
  case (1 n)
  show ?case
  proof (cases "n < 10")
    case True
    then show ?thesis by (subst str_nat.simps) (simp add: of_char_digit)
  next
    case False
    have "n mod 10 < 10" by simp
    from dec_nat_snoc [OF this, of 0 "str_nat (n div 10)"] "1.IH" [OF False] False
    show ?thesis by (subst str_nat.simps) simp
  qed
qed

lemma digit_char_values:
  "digit_char 0 = CHR ''0''" "digit_char 1 = CHR ''1''" "digit_char 2 = CHR ''2''"
  "digit_char 3 = CHR ''3''" "digit_char 4 = CHR ''4''" "digit_char 5 = CHR ''5''"
  "digit_char 6 = CHR ''6''" "digit_char 7 = CHR ''7''" "digit_char 8 = CHR ''8''"
  "digit_char 9 = CHR ''9''" "digit_char (Suc 0) = CHR ''1''"
  by code_simp+
lemma replicate_values:
  "replicate 1 c = [c]" "replicate 2 c = [c, c]" "replicate 3 c = [c, c, c]"
  "replicate 4 c = [c, c, c, c]"
  by (simp_all add: numeral_2_eq_2 numeral_3_eq_3 eval_nat_numeral)
lemmas eval_str = zfill_def str_int_def str_nat.simps digit_char_values replicate_values

lemma IMAGE_FILE_PREFIX_eq: "IMAGE_FILE_PREFIX = ''navisworks_views_comments_vp''"
  by (simp add: IMAGE_FILE_PREFIX_def CSV_FILE_STEM_def CSV_FILE_NAME_def)

lemma image_file_7: "image_file 7 = ''navisworks_views_comments_vp0007.jpg''"
  by (simp add: image_file_def IMAGE_FILE_PREFIX_eq eval_str)

section \<open>The image reference\<close>

text \<open>
  C3, as stated, fails: the reference does not end in the padded number, it ends in the
  extension \<^verbatim>\<open>.jpg\<close> that the code puts after it. The reference of the 7th view is
  \<^verbatim>\<open>navisworks_views_comments_vp0007.jpg\<close>, which has no suffix \<^verbatim>\<open>0007\<close>.
\<close>

theorem image_reference_suffix_counterexample:
  "image_file 7 = ''navisworks_views_comments_vp0007.jpg''
   \<and> \<not> (\<exists>pre. image_file 7 = pre @ ''0007'')"
proof -
  have "\<not> (\<exists>pre. image_file 7 = pre @ ''0007'')"
  proof
    assume "\<exists>pre. image_file 7 = pre @ ''0007''"
    then obtain pre where "image_file 7 = pre @ ''0007''" by blast
    then have "last (image_file 7) = CHR ''7''" by simp
    then show False by (simp add: image_file_7)
  qed
  then show ?thesis by (simp add: image_file_7)
qed

text \<open>
  C3, amended. For every N from 1 on, the image reference for sequence number N is the
  fixed prefix \<^verbatim>\<open>navisworks_views_comments_vp\<close>, then the decimal digits of N with zeros
  on the left up to four characters (and no truncation of a longer number), then
  \<^verbatim>\<open>.jpg\<close>. The digits read back as N. The 7th reference is
  \<^verbatim>\<open>navisworks_views_comments_vp0007.jpg\<close>, the 12345th
  \<^verbatim>\<open>navisworks_views_comments_vp12345.jpg\<close>. Every row added while visiting a view
  carries the reference of the counter's new value, and the view discovered at position
  \<open>i\<close> of the traversal (counted from 0) is announced with the reference of \<open>i + 1\<close>.
\<close>

theorem image_reference_format:
  "(1 \<le> n \<longrightarrow>
      image_file n = ''navisworks_views_comments_vp''
        @ replicate (4 - length (str_nat (nat n))) CHR ''0'' @ str_nat (nat n) @ ''.jpg'')
   \<and> dec_nat 0 (str_nat k) = Some k
   \<and> image_file 7 = ''navisworks_views_comments_vp0007.jpg''
   \<and> image_file 12345 = ''navisworks_views_comments_vp12345.jpg''
   \<and> (\<exists>new. rows (visit_view rt p view st) = rows st @ new
         \<and> list_all (\<lambda>r. ImagePath r = Some (image_file (view_counter st + 1))) new)
   \<and> (i < length (document_views root) \<longrightarrow>
        filter is_found_line (debug_lines (walk rt root)) ! i
          = found_line (attrib_get (document_views root ! i) ''name'' [])
              (attrib_get (document_views root ! i) ''guid'' []) (image_file (int i + 1)))"
proof -
  have a: "1 \<le> n \<longrightarrow>
      image_file n = ''navisworks_views_comments_vp''
        @ replicate (4 - length (str_nat (nat n))) CHR ''0'' @ str_nat (nat n) @ ''.jpg''"
    by (simp add: image_file_def IMAGE_FILE_PREFIX_eq str_int_def zfill_str_nat)
  have b: "image_file 12345 = ''navisworks_views_comments_vp12345.jpg''"
    by (simp add: image_file_def IMAGE_FILE_PREFIX_eq eval_str)
  obtain new where new: "rows (visit_view rt p view st) = rows st @ new"
    "list_all (static_cols p (attrib_get view ''name'' []) (attrib_get view ''guid'' [])
          (image_file (view_counter st + 1))) new"
    using visit_view_rows by blast
  from new(2) have "list_all (\<lambda>r. ImagePath r = Some (image_file (view_counter st + 1))) new"
    by (simp add: list_all_iff static_cols_def)
  with new(1) have c: "\<exists>new. rows (visit_view rt p view st) = rows st @ new
         \<and> list_all (\<lambda>r. ImagePath r = Some (image_file (view_counter st + 1))) new"
    by blast
  have d: "i < length (document_views root) \<longrightarrow>
        filter is_found_line (debug_lines (walk rt root)) ! i
          = found_line (attrib_get (document_views root ! i) ''name'' [])
              (attrib_get (document_views root ! i) ''guid'' []) (image_file (int i + 1))"
    using found_lines_nth [of i "document_views root" 0]
    by (simp add: walk_found_counter)
  from a dec_nat_str_nat [of k] image_file_7 b c d show ?thesis
    by (intro conjI)
qed


theorem image_reference_format_witness:
  "(1::int) \<le> 7
   \<and> image_file 7 = ''navisworks_views_comments_vp''
        @ replicate (4 - length (str_nat (nat 7))) CHR ''0'' @ str_nat (nat 7) @ ''.jpg''
   \<and> str_nat (nat 7) = ''7''
   \<and> 0 < length (document_views
          (Element ''exchange'' [] None [Element ''viewpoints'' [] None
             [Element ''viewfolder'' [] None [Element ''view'' [] None []]]]))
   \<and> filter is_found_line (debug_lines (walk rt0
          (Element ''exchange'' [] None [Element ''viewpoints'' [] None
             [Element ''viewfolder'' [] None [Element ''view'' [] None []]]]))) ! 0
       = found_line [] [] ''navisworks_views_comments_vp0001.jpg''"
proof -
  let ?doc = "Element ''exchange'' [] None [Element ''viewpoints'' [] None
             [Element ''viewfolder'' [] None [Element ''view'' [] None []]]]"
  have dv: "document_views ?doc = [Element ''view'' [] None []]"
    by (simp add: document_views_def top_folders_def findall_def folder_views.simps)
  have one: "image_file 1 = ''navisworks_views_comments_vp0001.jpg''"
    by (simp add: image_file_def IMAGE_FILE_PREFIX_eq eval_str)
  have s7: "str_nat 7 = ''7''"
    by (simp add: eval_str)
  from image_reference_format [where n = 7 and k = 0 and rt = rt0 and p = "[]"
      and view = "Element ''view'' [] None []" and st = init_state and i = 0 and root = ?doc]
  show ?thesis
    by (simp add: dv one s7 attrib_get_def)
qed

section \<open>Facts about the date normalizer\<close>

lemma length_zfill: "length (zfill w s) = max w (length s)"
  by (cases s) (auto simp add: zfill_def)

lemma length_str_nat_le: "0 < k \<Longrightarrow> n < 10 ^ k \<Longrightarrow> length (str_nat n) \<le> k"
proof (induction n arbitrary: k rule: str_nat.induct)
  case (1 n)
  show ?case
  proof (cases "n < 10")
    case True
    with "1.prems" show ?thesis by (subst str_nat.simps) simp
  next
    case False
    obtain j where k: "k = Suc j" using "1.prems"(1) by (cases k) auto
    have "j \<noteq> 0" using False "1.prems"(2) k by (cases j) auto
    moreover have "n div 10 < 10 ^ j" using "1.prems"(2) k by (simp add: less_mult_imp_div_less mult.commute)
    ultimately have "length (str_nat (n div 10)) \<le> j"
      using "1.IH" [OF False, of j] by simp
    with False k show ?thesis by (subst str_nat.simps) simp
  qed
qed

lemma length_str_nat_ge: "10 ^ k \<le> n \<Longrightarrow> k < length (str_nat n)"
proof (induction n arbitrary: k rule: str_nat.induct)
  case (1 n)
  show ?case
  proof (cases "n < 10")
    case True
    have "k = 0"
    proof (cases k)
      case (Suc j)
      have "(10::nat) \<le> 10 * 10 ^ j" by simp
      with "1.prems" Suc True show ?thesis by simp
    qed simp
    with True show ?thesis by (subst str_nat.simps) simp
  next
    case False
    show ?thesis
    proof (cases k)
      case 0
      with False show ?thesis by (subst str_nat.simps) simp
    next
      case (Suc j)
      with "1.prems" have "10 ^ j \<le> n div 10" by (simp add: less_eq_div_iff_mult_less_eq mult.commute)
      from "1.IH" [OF False this] False Suc show ?thesis by (subst str_nat.simps) simp
    qed
  qed
qed

lemma length_strftime:
  assumes "1900 \<le> y" "y \<le> 9999" "1 \<le> m" "m \<le> 12" "1 \<le> d" "d \<le> 31"
  shows "length (strftime (y, m, d)) = 10"
proof -
  have y4: "length (str_nat (nat y)) = 4"
  proof -
    have "nat y < 10 ^ 4" "10 ^ 3 \<le> nat y" using assms by simp_all
    from length_str_nat_le [OF _ this(1)] length_str_nat_ge [OF this(2)] show ?thesis by simp
  qed
  have m2: "length (str_nat (nat m)) \<le> 2"
    using length_str_nat_le [of 2 "nat m"] assms by simp
  have d2: "length (str_nat (nat d)) \<le> 2"
    using length_str_nat_le [of 2 "nat d"] assms by simp
  show ?thesis
    using assms y4 m2 d2 by (simp add: strftime_def str_int_def length_zfill)
qed


lemma createddate_try_absent:
  "createddate_try rt None = Inr None"
  "find_elem c ''date'' = None \<Longrightarrow> createddate_try rt (Some c) = Inr None"
  by (simp_all add: createddate_try_def)

lemma createddate_try_fields:
  assumes "find_elem c ''date'' = Some dn"
    and "int_attr rt dn ''year'' = Inr y"
    and "int_attr rt dn ''month'' = Inr m"
    and "int_attr rt dn ''day'' = Inr d"
  shows "createddate_try rt (Some c) =
     (if y < 1900 \<or> m = 0 \<or> d = 0 then Inr None
      else (case datetime y m d of Inl e \<Rightarrow> Inl e | Inr dt \<Rightarrow> Inr (Some (strftime dt))))"
  using assms by (simp add: createddate_try_def)

lemma datetime_valid:
  "1 \<le> y \<Longrightarrow> y \<le> 9999 \<Longrightarrow> 1 \<le> m \<Longrightarrow> m \<le> 12 \<Longrightarrow> 1 \<le> d \<Longrightarrow> d \<le> days_in_month y m
     \<Longrightarrow> datetime y m d = Inr (y, m, d)"
  by (simp add: datetime_def)

lemma days_in_month_le: "days_in_month y m \<le> 31"
  by (simp add: days_in_month_def)

lemma dec_int_values:
  "dec_int ''2024'' = Some 2024" "dec_int ''1899'' = Some 1899" "dec_int ''3'' = Some 3"
  "dec_int ''5'' = Some 5" "dec_int ''0'' = Some 0" "dec_int ''13'' = Some 13"
  "dec_int ''4'' = Some 4" "dec_int ''31'' = Some 31" "dec_int ''abc'' = None"
  by (simp_all add: dec_int_def)

section \<open>The date normalizer\<close>

text \<open>
  C4, as stated, fails in its last clause: a field that is present and not numeric does
  not default to 0. With month \<^verbatim>\<open>abc\<close> the conversion raises, and the function logs a
  failure line; had the month been read as 0, it would have returned with nothing logged,
  as it does for month \<^verbatim>\<open>0\<close>.
\<close>

theorem nonnumeric_field_counterexample:
  "int_attr rt0 (Element ''date'' [(''year'', ''2024''), (''month'', ''abc''), (''day'', ''5'')]
       None []) ''month'' = Inl (IntLiteralError ''abc'')
   \<and> parse_createddate rt0 (Some (sample_date ''2024'' ''abc'' ''5'')) []
       = (None, [failed_line rt0 (IntLiteralError ''abc'')
                   (Some (sample_date ''2024'' ''abc'' ''5''))])
   \<and> parse_createddate rt0 (Some (sample_date ''2024'' ''0'' ''5'')) [] = (None, [])"
  by (simp add: parse_createddate_def createddate_try_def sample_date_def find_elem_def
      int_attr_def rt0_def dec_int_values)

text \<open>
  C4, amended. The normalizer returns absence, with nothing logged, when the descriptor is
  absent (no \<^verbatim>\<open>createddate\<close>, or none with a \<^verbatim>\<open>date\<close> child), and when the
  fields are read as integers with year below 1900, month 0 or day 0. A field defaults to
  0 when its attribute is absent; a present field is read by \<^verbatim>\<open>int\<close>, and one that
  \<^verbatim>\<open>int\<close> rejects is an exception, not 0. When the fields are read with year from
  1900 to 9999, month from 1 to 12 and day within the month, the result is the year in
  four digits, the month and the day in two, separated by slashes, ten characters in all,
  with nothing logged; 2024, 3, 5 gives \<^verbatim>\<open>2024/03/05\<close>. A year below 1900 yields
  absence whatever the month and day are.
\<close>

theorem date_normalizer:
  "parse_createddate rt None log = (None, log)
   \<and> (find_elem c ''date'' = None \<longrightarrow> parse_createddate rt (Some c) log = (None, log))
   \<and> (map_of (attrib dn) k = None \<longrightarrow> int_attr rt dn k = Inr 0)
   \<and> (map_of (attrib dn) k = Some s \<and> py_int rt s = Some i \<longrightarrow> int_attr rt dn k = Inr i)
   \<and> (map_of (attrib dn) k = Some s \<and> py_int rt s = None
        \<longrightarrow> int_attr rt dn k = Inl (IntLiteralError s))
   \<and> (find_elem c ''date'' = Some dn \<and> int_attr rt dn ''year'' = Inr y
        \<and> int_attr rt dn ''month'' = Inr m \<and> int_attr rt dn ''day'' = Inr d
        \<longrightarrow> (y < 1900 \<or> m = 0 \<or> d = 0 \<longrightarrow> parse_createddate rt (Some c) log = (None, log))
          \<and> (1900 \<le> y \<and> y \<le> 9999 \<and> 1 \<le> m \<and> m \<le> 12 \<and> 1 \<le> d \<and> d \<le> days_in_month y m
               \<longrightarrow> parse_createddate rt (Some c) log
                     = (Some (zfill 4 (str_int y) @ ''/'' @ zfill 2 (str_int m) @ ''/''
                              @ zfill 2 (str_int d)), log)
                   \<and> length (zfill 4 (str_int y) @ ''/'' @ zfill 2 (str_int m) @ ''/''
                              @ zfill 2 (str_int d)) = 10))
   \<and> (find_elem c ''date'' = Some dn \<and> int_attr rt dn ''year'' = Inr y \<and> y < 1900
        \<longrightarrow> fst (parse_createddate rt (Some c) log) = None)
   \<and> zfill 4 (str_int 2024) @ ''/'' @ zfill 2 (str_int 3) @ ''/'' @ zfill 2 (str_int 5)
       = ''2024/03/05''"
proof -
  have a: "parse_createddate rt None log = (None, log)"
    by (simp add: parse_createddate_def createddate_try_absent)
  have b: "find_elem c ''date'' = None \<longrightarrow> parse_createddate rt (Some c) log = (None, log)"
    by (simp add: parse_createddate_def createddate_try_absent)
  have c: "map_of (attrib dn) k = None \<longrightarrow> int_attr rt dn k = Inr 0"
    "map_of (attrib dn) k = Some s \<and> py_int rt s = Some i \<longrightarrow> int_attr rt dn k = Inr i"
    "map_of (attrib dn) k = Some s \<and> py_int rt s = None
        \<longrightarrow> int_attr rt dn k = Inl (IntLiteralError s)"
    by (simp_all add: int_attr_def)
  have d: "find_elem c ''date'' = Some dn \<and> int_attr rt dn ''year'' = Inr y
        \<and> int_attr rt dn ''month'' = Inr m \<and> int_attr rt dn ''day'' = Inr d
        \<longrightarrow> (y < 1900 \<or> m = 0 \<or> d = 0 \<longrightarrow> parse_createddate rt (Some c) log = (None, log))
          \<and> (1900 \<le> y \<and> y \<le> 9999 \<and> 1 \<le> m \<and> m \<le> 12 \<and> 1 \<le> d \<and> d \<le> days_in_month y m
               \<longrightarrow> parse_createddate rt (Some c) log
                     = (Some (zfill 4 (str_int y) @ ''/'' @ zfill 2 (str_int m) @ ''/''
                              @ zfill 2 (str_int d)), log)
                   \<and> length (zfill 4 (str_int y) @ ''/'' @ zfill 2 (str_int m) @ ''/''
                              @ zfill 2 (str_int d)) = 10)"
  proof (intro impI conjI; (elim conjE)?)
    assume h: "find_elem c ''date'' = Some dn" "int_attr rt dn ''year'' = Inr y"
      "int_attr rt dn ''month'' = Inr m" "int_attr rt dn ''day'' = Inr d"
    {
      assume "y < 1900 \<or> m = 0 \<or> d = 0"
      then show "parse_createddate rt (Some c) log = (None, log)"
        by (simp add: parse_createddate_def createddate_try_fields [OF h])
    }
    assume v: "1900 \<le> y" "y \<le> 9999" "1 \<le> m" "m \<le> 12" "1 \<le> d" "d \<le> days_in_month y m"
    have dt: "datetime y m d = Inr (y, m, d)"
      using v by (intro datetime_valid) simp_all
    show "parse_createddate rt (Some c) log
        = (Some (zfill 4 (str_int y) @ ''/'' @ zfill 2 (str_int m) @ ''/''
                   @ zfill 2 (str_int d)), log)"
      using v by (simp add: parse_createddate_def createddate_try_fields [OF h] dt strftime_def)
    have "d \<le> 31" using v(6) days_in_month_le [of y m] by simp
    from length_strftime [OF v(1-5) this]
    show "length (zfill 4 (str_int y) @ ''/'' @ zfill 2 (str_int m) @ ''/''
                   @ zfill 2 (str_int d)) = 10"
      by (simp add: strftime_def)
  qed
  have e: "find_elem c ''date'' = Some dn \<and> int_attr rt dn ''year'' = Inr y \<and> y < 1900
        \<longrightarrow> fst (parse_createddate rt (Some c) log) = None"
    by (auto simp add: parse_createddate_def createddate_try_def split: sum.splits)
  have f: "zfill 4 (str_int 2024) @ ''/'' @ zfill 2 (str_int 3) @ ''/'' @ zfill 2 (str_int 5)
       = ''2024/03/05''"
    by (simp add: eval_str)
  from a b c d e f show ?thesis by (intro conjI)
qed


lemma sample_date_find:
  "find_elem (sample_date y m d) ''date''
     = Some (Element ''date'' [(''year'', y), (''month'', m), (''day'', d)] None [])"
  by (simp add: sample_date_def find_elem_def)

lemma sample_date_attr:
  "int_attr rt0 (Element ''date'' [(''year'', y), (''month'', m), (''day'', d)] None []) ''year''
     = (case dec_int y of None \<Rightarrow> Inl (IntLiteralError y) | Some i \<Rightarrow> Inr i)"
  "int_attr rt0 (Element ''date'' [(''year'', y), (''month'', m), (''day'', d)] None []) ''month''
     = (case dec_int m of None \<Rightarrow> Inl (IntLiteralError m) | Some i \<Rightarrow> Inr i)"
  "int_attr rt0 (Element ''date'' [(''year'', y), (''month'', m), (''day'', d)] None []) ''day''
     = (case dec_int d of None \<Rightarrow> Inl (IntLiteralError d) | Some i \<Rightarrow> Inr i)"
  by (simp_all add: int_attr_def rt0_def)

theorem date_normalizer_witness:
  "parse_createddate rt0 (Some (sample_date ''2024'' ''3'' ''5'')) [] = (Some ''2024/03/05'', [])
   \<and> parse_createddate rt0 (Some (sample_date ''1899'' ''3'' ''5'')) [] = (None, [])
   \<and> parse_createddate rt0 (Some (Element ''createddate'' [] None [])) [] = (None, [])
   \<and> int_attr rt0 (Element ''date'' [] None []) ''year'' = Inr 0
   \<and> int_attr rt0 (Element ''date'' [(''month'', ''abc'')] None []) ''month''
       = Inl (IntLiteralError ''abc'')
   \<and> fst (parse_createddate rt0 (Some (sample_date ''1899'' ''abc'' ''5'')) []) = None"
proof -
  have dim: "days_in_month 2024 3 = 31" by (simp add: days_in_month_def)
  have a: "parse_createddate rt0 (Some (sample_date ''2024'' ''3'' ''5'')) []
      = (Some ''2024/03/05'', [])"
    using date_normalizer [where rt = rt0 and c = "sample_date ''2024'' ''3'' ''5''"
        and dn = "Element ''date'' [(''year'', ''2024''), (''month'', ''3''), (''day'', ''5'')] None []"
        and y = 2024 and m = 3 and d = 5 and log = "[]" and k = "''month''" and s = "''3''"
        and i = 3]
    by (simp add: sample_date_find sample_date_attr dec_int_values dim)
  have b: "parse_createddate rt0 (Some (sample_date ''1899'' ''3'' ''5'')) [] = (None, [])"
    using date_normalizer [where rt = rt0 and c = "sample_date ''1899'' ''3'' ''5''"
        and dn = "Element ''date'' [(''year'', ''1899''), (''month'', ''3''), (''day'', ''5'')] None []"
        and y = 1899 and m = 3 and d = 5 and log = "[]" and k = "''month''" and s = "''3''"
        and i = 3]
    by (simp add: sample_date_find sample_date_attr dec_int_values)
  have c: "parse_createddate rt0 (Some (Element ''createddate'' [] None [])) [] = (None, [])
      \<and> int_attr rt0 (Element ''date'' [] None []) ''year'' = Inr 0"
    using date_normalizer [where rt = rt0 and c = "Element ''createddate'' [] None []"
        and dn = "Element ''date'' [] None []" and log = "[]" and k = "''year''"]
    by (simp add: find_elem_def)
  have d: "int_attr rt0 (Element ''date'' [(''month'', ''abc'')] None []) ''month''
       = Inl (IntLiteralError ''abc'')"
    using date_normalizer [where rt = rt0 and dn = "Element ''date'' [(''month'', ''abc'')] None []"
        and k = "''month''" and s = "''abc''"]
    by (simp add: rt0_def dec_int_values)
  have e: "fst (parse_createddate rt0 (Some (sample_date ''1899'' ''abc'' ''5'')) []) = None"
    using date_normalizer [where rt = rt0 and c = "sample_date ''1899'' ''abc'' ''5''"
        and dn = "Element ''date'' [(''year'', ''1899''), (''month'', ''abc''), (''day'', ''5'')] None []"
        and y = 1899 and log = "[]"]
    by (simp add: sample_date_find sample_date_attr dec_int_values)
  from a b c d e show ?thesis by (intro conjI) simp_all
qed

section \<open>Conversion failures\<close>

lemma datetime_invalid:
  "9999 < y \<or> y < 1 \<or> m < 1 \<or> 12 < m \<or> d < 1 \<or> days_in_month y m < d
     \<Longrightarrow> \<exists>e. datetime y m d = Inl e"
  by (auto simp add: datetime_def)

lemma parse_createddate_cases:
  "parse_createddate rt created log = (r, log') \<Longrightarrow>
   log' = log \<or> (r = None \<and> (\<exists>e c. created = Some c \<and> log' = log @ [failed_line rt e (Some c)]))"
  by (cases created)
    (auto simp add: parse_createddate_def createddate_try_absent split: sum.splits)

text \<open>
  C5. When a field of the date is present and rejected by \<^verbatim>\<open>int\<close>, or when the three
  fields are read with year at least 1900, month and day not 0, and they are not a date
  of the calendar (year above 9999, month outside 1 to 12, day outside the month), the
  function returns absence and appends exactly one line to the log, which ends with the
  dump of the \<^verbatim>\<open>createddate\<close> element. In every case the function returns: either
  the log is unchanged, or the result is absence and the log has that one line more.
  Month 13, and day 31 in April, are rejected by \<^verbatim>\<open>datetime\<close>.
\<close>

theorem conversion_failure:
  "(find_elem c ''date'' = Some dn
      \<and> ((\<exists>s. map_of (attrib dn) ''year'' = Some s \<and> py_int rt s = None)
         \<or> (\<exists>s. map_of (attrib dn) ''month'' = Some s \<and> py_int rt s = None)
         \<or> (\<exists>s. map_of (attrib dn) ''day'' = Some s \<and> py_int rt s = None))
      \<longrightarrow> (\<exists>e. parse_createddate rt (Some c) log
                 = (None, log @ [CROSS_MARK @ '' Failed to parse createddate: '' @ exc_str rt e
                                   @ '', raw='' @ tostring rt c])))
   \<and> (find_elem c ''date'' = Some dn \<and> int_attr rt dn ''year'' = Inr y
        \<and> int_attr rt dn ''month'' = Inr m \<and> int_attr rt dn ''day'' = Inr d
        \<and> 1900 \<le> y \<and> m \<noteq> 0 \<and> d \<noteq> 0
        \<and> (9999 < y \<or> m < 1 \<or> 12 < m \<or> d < 1 \<or> days_in_month y m < d)
      \<longrightarrow> (\<exists>e. parse_createddate rt (Some c) log
                 = (None, log @ [CROSS_MARK @ '' Failed to parse createddate: '' @ exc_str rt e
                                   @ '', raw='' @ tostring rt c])))
   \<and> (snd (parse_createddate rt created log) = log
        \<or> (\<exists>e c. created = Some c
              \<and> parse_createddate rt created log
                  = (None, log @ [CROSS_MARK @ '' Failed to parse createddate: ''
                                    @ exc_str rt e @ '', raw='' @ tostring rt c])))
   \<and> datetime 2024 13 5 = Inl (MonthOutOfRange 13)
   \<and> datetime 2024 4 31 = Inl (DayOutOfRange 2024 4 31)"
proof -
  have a: "find_elem c ''date'' = Some dn
      \<and> ((\<exists>s. map_of (attrib dn) ''year'' = Some s \<and> py_int rt s = None)
         \<or> (\<exists>s. map_of (attrib dn) ''month'' = Some s \<and> py_int rt s = None)
         \<or> (\<exists>s. map_of (attrib dn) ''day'' = Some s \<and> py_int rt s = None))
      \<longrightarrow> (\<exists>e. parse_createddate rt (Some c) log
                 = (None, log @ [CROSS_MARK @ '' Failed to parse createddate: '' @ exc_str rt e
                                   @ '', raw='' @ tostring rt c]))"
    by (auto simp add: parse_createddate_def createddate_try_def int_attr_def failed_line_def
        split: sum.splits option.splits)
  have b: "find_elem c ''date'' = Some dn \<and> int_attr rt dn ''year'' = Inr y
        \<and> int_attr rt dn ''month'' = Inr m \<and> int_attr rt dn ''day'' = Inr d
        \<and> 1900 \<le> y \<and> m \<noteq> 0 \<and> d \<noteq> 0
        \<and> (9999 < y \<or> m < 1 \<or> 12 < m \<or> d < 1 \<or> days_in_month y m < d)
      \<longrightarrow> (\<exists>e. parse_createddate rt (Some c) log
                 = (None, log @ [CROSS_MARK @ '' Failed to parse createddate: '' @ exc_str rt e
                                   @ '', raw='' @ tostring rt c]))"
  proof (intro impI, elim conjE)
    assume h: "find_elem c ''date'' = Some dn" "int_attr rt dn ''year'' = Inr y"
      "int_attr rt dn ''month'' = Inr m" "int_attr rt dn ''day'' = Inr d"
      and g: "1900 \<le> y" "m \<noteq> 0" "d \<noteq> 0"
      and bad: "9999 < y \<or> m < 1 \<or> 12 < m \<or> d < 1 \<or> days_in_month y m < d"
    from bad obtain e where "datetime y m d = Inl e"
      using datetime_invalid [of y m d] by blast
    with g show "\<exists>e. parse_createddate rt (Some c) log
                 = (None, log @ [CROSS_MARK @ '' Failed to parse createddate: '' @ exc_str rt e
                                   @ '', raw='' @ tostring rt c])"
      by (intro exI [of _ e])
        (simp add: parse_createddate_def createddate_try_fields [OF h] failed_line_def)
  qed
  obtain r log' where p: "parse_createddate rt created log = (r, log')"
    by (cases "parse_createddate rt created log")
  from parse_createddate_cases [OF p] p
  have c: "snd (parse_createddate rt created log) = log
        \<or> (\<exists>e c. created = Some c
              \<and> parse_createddate rt created log
                  = (None, log @ [CROSS_MARK @ '' Failed to parse createddate: ''
                                    @ exc_str rt e @ '', raw='' @ tostring rt c]))"
    by (auto simp add: failed_line_def)
  have d: "datetime 2024 13 5 = Inl (MonthOutOfRange 13)"
    "datetime 2024 4 31 = Inl (DayOutOfRange 2024 4 31)"
    by (simp_all add: datetime_def days_in_month_def)
  from a b c d show ?thesis by (intro conjI)
qed

theorem conversion_failure_witness:
  "(find_elem (sample_date ''2024'' ''abc'' ''5'') ''date''
      = Some (Element ''date'' [(''year'', ''2024''), (''month'', ''abc''), (''day'', ''5'')]
                None [])
    \<and> py_int rt0 ''abc'' = None
    \<and> (\<exists>e. parse_createddate rt0 (Some (sample_date ''2024'' ''abc'' ''5'')) []
             = (None, [CROSS_MARK @ '' Failed to parse createddate: '' @ exc_str rt0 e
                         @ '', raw='' @ tostring rt0 (sample_date ''2024'' ''abc'' ''5'')])))
   \<and> (days_in_month 2024 4 < 31
    \<and> (\<exists>e. parse_createddate rt0 (Some (sample_date ''2024'' ''4'' ''31'')) []
             = (None, [CROSS_MARK @ '' Failed to parse createddate: '' @ exc_str rt0 e
                         @ '', raw='' @ tostring rt0 (sample_date ''2024'' ''4'' ''31'')])))"
proof -
  let ?dn1 = "Element ''date'' [(''year'', ''2024''), (''month'', ''abc''), (''day'', ''5'')]
      None []"
  let ?dn2 = "Element ''date'' [(''year'', ''2024''), (''month'', ''4''), (''day'', ''31'')]
      None []"
  have dim: "days_in_month 2024 4 < 31" by (simp add: days_in_month_def)
  have abc: "py_int rt0 ''abc'' = None" by (simp add: rt0_def dec_int_values)
  have h1: "find_elem (sample_date ''2024'' ''abc'' ''5'') ''date'' = Some ?dn1
      \<and> ((\<exists>s. map_of (attrib ?dn1) ''year'' = Some s \<and> py_int rt0 s = None)
         \<or> (\<exists>s. map_of (attrib ?dn1) ''month'' = Some s \<and> py_int rt0 s = None)
         \<or> (\<exists>s. map_of (attrib ?dn1) ''day'' = Some s \<and> py_int rt0 s = None))"
    using abc by (simp add: sample_date_find)
  have h2: "find_elem (sample_date ''2024'' ''4'' ''31'') ''date'' = Some ?dn2
        \<and> int_attr rt0 ?dn2 ''year'' = Inr 2024
        \<and> int_attr rt0 ?dn2 ''month'' = Inr 4 \<and> int_attr rt0 ?dn2 ''day'' = Inr 31
        \<and> (1900::int) \<le> 2024 \<and> (4::int) \<noteq> 0 \<and> (31::int) \<noteq> 0
        \<and> ((9999::int) < 2024 \<or> (4::int) < 1 \<or> (12::int) < 4 \<or> (31::int) < 1
            \<or> days_in_month 2024 4 < 31)"
    using dim by (simp add: sample_date_find sample_date_attr dec_int_values)
  note r1 = conversion_failure [where rt = rt0 and c = "sample_date ''2024'' ''abc'' ''5''"
      and dn = ?dn1 and log = "[]", THEN conjunct1, THEN mp, OF h1, unfolded append_Nil]
  note r2 = conversion_failure [where rt = rt0 and c = "sample_date ''2024'' ''4'' ''31''"
      and dn = ?dn2 and y = 2024 and m = 4 and d = 31 and log = "[]",
      THEN conjunct2, THEN conjunct1, THEN mp, OF h2, unfolded append_Nil]
  note f1 = sample_date_find [of "''2024''" "''abc''" "''5''"]
  show ?thesis
    by (rule conjI [OF conjI [OF f1 conjI [OF abc r1]] conjI [OF dim r2]])
qed

section \<open>Deduplication\<close>

lemma dedup_inv_init: "dedup_inv init_state"
  by (simp add: dedup_inv_def init_state_def)

lemma dedup_inv_log [simp]: "dedup_inv (st\<lparr>debug_lines := l\<rparr>) = dedup_inv st"
  by (simp add: dedup_inv_def)

lemma dedup_inv_counter [simp]: "dedup_inv (st\<lparr>view_counter := n\<rparr>) = dedup_inv st"
  by (simp add: dedup_inv_def)

lemma dedup_inv_log_line [simp]: "dedup_inv (log_line m st) = dedup_inv st"
  by (simp add: log_line_def)

lemma dedup_inv_add_row: "dedup_inv st \<Longrightarrow> dedup_inv (add_row r st)"
  by (auto simp add: dedup_inv_def add_row_def Let_def)

lemma dedup_inv_visit_comment:
  "dedup_inv st \<Longrightarrow> dedup_inv (visit_comment rt p vn g img c st)"
  by (auto simp add: visit_comment_def Let_def split: prod.splits intro!: dedup_inv_add_row)

lemma dedup_inv_fold_visit_comment:
  "dedup_inv st \<Longrightarrow> dedup_inv (fold (visit_comment rt p vn g img) cs st)"
  by (induction cs arbitrary: st) (simp_all add: dedup_inv_visit_comment)

lemma dedup_inv_visit_view: "dedup_inv st \<Longrightarrow> dedup_inv (visit_view rt p v st)"
  by (auto simp add: visit_view_def Let_def split: option.splits
      intro!: dedup_inv_add_row dedup_inv_fold_visit_comment)

lemma dedup_inv_fold_visit_view:
  "dedup_inv st \<Longrightarrow> dedup_inv (fold (visit_view rt p) vs st)"
  by (induction vs arbitrary: st) (simp_all add: dedup_inv_visit_view)

lemma fold_visit_view_grows: "\<exists>new. rows (fold (visit_view rt p) vs st) = rows st @ new"
proof (induction vs arbitrary: st)
  case Nil
  show ?case by simp
next
  case (Cons v vs)
  obtain n1 where "rows (visit_view rt p v st) = rows st @ n1"
    using visit_view_rows by blast
  moreover obtain n2 where
    "rows (fold (visit_view rt p) vs (visit_view rt p v st)) = rows (visit_view rt p v st) @ n2"
    using Cons.IH by blast
  ultimately show ?case by simp
qed

lemma recurse_dedup_grows:
  "(dedup_inv st \<longrightarrow> dedup_inv (recurse rt folder path st))
   \<and> (\<exists>new. rows (recurse rt folder path st) = rows st @ new)"
  "(dedup_inv st \<longrightarrow> dedup_inv (recurse_each rt cs path st))
   \<and> (\<exists>new. rows (recurse_each rt cs path st) = rows st @ new)"
proof (induction rt folder path st and rt cs path st rule: recurse_recurse_each.induct)
  case (1 rt folder path st)
  let ?p = "path @ [attrib_get folder ''name'' []]"
  let ?st1 = "log_line (entering_line ?p) st"
  let ?st2 = "fold (visit_view rt ?p) (findall folder ''view'') ?st1"
  note ih = "1.IH" [OF refl refl refl refl]
  have eq: "recurse rt folder path st = recurse_each rt (findall folder ''viewfolder'') ?p ?st2"
    by (simp add: recurse.simps [of rt folder] Let_def)
  obtain n1 where n1: "rows ?st2 = rows ?st1 @ n1"
    using fold_visit_view_grows by blast
  obtain n2 where n2: "rows (recurse rt folder path st) = rows ?st2 @ n2"
    using ih eq by auto
  have "dedup_inv st \<longrightarrow> dedup_inv (recurse rt folder path st)"
    using ih eq dedup_inv_fold_visit_view [of ?st1 rt ?p "findall folder ''view''"] by simp
  moreover have "\<exists>new. rows (recurse rt folder path st) = rows st @ new"
    using n1 n2 by simp
  ultimately show ?case by blast
next
  case (2 rt new_path st)
  show ?case by simp
next
  case (3 rt child rest new_path st)
  obtain n1 where n1: "rows (recurse rt child new_path st) = rows st @ n1"
    using "3.IH"(1) by blast
  obtain n2 where n2: "rows (recurse_each rt rest new_path (recurse rt child new_path st))
      = rows (recurse rt child new_path st) @ n2"
    using "3.IH"(2) by blast
  have "dedup_inv st \<longrightarrow> dedup_inv (recurse_each rt (child # rest) new_path st)"
    using "3.IH" by simp
  moreover have "\<exists>new. rows (recurse_each rt (child # rest) new_path st) = rows st @ new"
    using n1 n2 by simp
  ultimately show ?case by blast
qed

lemma dedup_inv_walk: "dedup_inv (walk rt root)"
  using recurse_dedup_grows(2) [of init_state rt "top_folders root" "[]"] dedup_inv_init
  by (simp add: walk_def)

text \<open>
  C1. The rows that \<^verbatim>\<open>process_xml\<close> returns have pairwise different keys, the key of
  a row being its pair of GUID and CommentID. A row with a key not yet seen is appended
  and its key registered; a row with a key already seen leaves rows and keys as they are
  and adds one log line that cites the GUID and the CommentID. Both \<^verbatim>\<open>add_row\<close> and
  the walk of a folder keep the rows' keys distinct and registered, and both only append
  to the accepted rows: the rows accepted before remain, unchanged and in place.
\<close>

theorem add_row_dedup:
  "distinct (map row_key (fst (process_xml rt root)))
   \<and> row_key r = (GUID r, CommentID r)
   \<and> (row_key r \<notin> seen st \<longrightarrow>
        add_row r st = st\<lparr>rows := rows st @ [r], seen := insert (row_key r) (seen st)\<rparr>)
   \<and> (row_key r \<in> seen st \<longrightarrow>
        add_row r st = st\<lparr>debug_lines := debug_lines st
          @ [WARNING_SIGN @ '' Duplicate skipped: GUID='' @ fmt (GUID r) @ '', CommentID=''
               @ fmt (CommentID r)]\<rparr>)
   \<and> (distinct (map row_key (rows st)) \<and> row_key ` set (rows st) \<subseteq> seen st \<longrightarrow>
        distinct (map row_key (rows (add_row r st)))
        \<and> row_key ` set (rows (add_row r st)) \<subseteq> seen (add_row r st))
   \<and> (distinct (map row_key (rows st)) \<and> row_key ` set (rows st) \<subseteq> seen st \<longrightarrow>
        distinct (map row_key (rows (recurse rt folder path st)))
        \<and> row_key ` set (rows (recurse rt folder path st)) \<subseteq> seen (recurse rt folder path st))
   \<and> (\<exists>new. rows (add_row r st) = rows st @ new)
   \<and> (\<exists>new. rows (recurse rt folder path st) = rows st @ new)"
proof -
  have a: "distinct (map row_key (fst (process_xml rt root)))"
    using dedup_inv_walk [of rt root] by (simp add: process_xml_def Let_def dedup_inv_def)
  have b: "row_key r = (GUID r, CommentID r)"
    by (simp add: row_key_def)
  have c: "row_key r \<notin> seen st \<longrightarrow>
        add_row r st = st\<lparr>rows := rows st @ [r], seen := insert (row_key r) (seen st)\<rparr>"
    by (simp add: add_row_def Let_def)
  have d: "row_key r \<in> seen st \<longrightarrow>
        add_row r st = st\<lparr>debug_lines := debug_lines st
          @ [WARNING_SIGN @ '' Duplicate skipped: GUID='' @ fmt (GUID r) @ '', CommentID=''
               @ fmt (CommentID r)]\<rparr>"
    by (simp add: add_row_def Let_def log_line_def duplicate_line_def)
  have e: "distinct (map row_key (rows st)) \<and> row_key ` set (rows st) \<subseteq> seen st \<longrightarrow>
        distinct (map row_key (rows (add_row r st)))
        \<and> row_key ` set (rows (add_row r st)) \<subseteq> seen (add_row r st)"
    using dedup_inv_add_row [of st r] by (simp add: dedup_inv_def)
  have f: "distinct (map row_key (rows st)) \<and> row_key ` set (rows st) \<subseteq> seen st \<longrightarrow>
        distinct (map row_key (rows (recurse rt folder path st)))
        \<and> row_key ` set (rows (recurse rt folder path st)) \<subseteq> seen (recurse rt folder path st)"
    using recurse_dedup_grows(1) [of st rt folder path] by (simp add: dedup_inv_def)
  have g: "\<exists>new. rows (add_row r st) = rows st @ new"
    by (simp add: add_row_rows)
  have h: "\<exists>new. rows (recurse rt folder path st) = rows st @ new"
    using recurse_dedup_grows(1) [of st rt folder path] by blast
  from a b c d e f g h show ?thesis by (intro conjI)
qed


lemma sample_doc_keys:
  "map row_key (fst (process_xml rt0 sample_doc))
     = [(Some ''G1'', Some ''C1''), (Some ''G1'', Some ''C2'')]"
  by code_simp

theorem add_row_dedup_witness:
  "map row_key (fst (process_xml rt0 sample_doc))
     = [(Some ''G1'', Some ''C1''), (Some ''G1'', Some ''C2'')]
   \<and> distinct (map row_key (fst (process_xml rt0 sample_doc)))
   \<and> row_key sample_row \<notin> seen init_state
   \<and> add_row sample_row init_state
       = init_state\<lparr>rows := [sample_row], seen := {(Some ''G1'', None)}\<rparr>
   \<and> row_key sample_row \<in> seen (add_row sample_row init_state)
   \<and> add_row sample_row (add_row sample_row init_state)
       = init_state\<lparr>rows := [sample_row], seen := {(Some ''G1'', None)},
           debug_lines := [WARNING_SIGN @ '' Duplicate skipped: GUID=G1, CommentID=None'']\<rparr>"
proof -
  let ?st1 = "add_row sample_row init_state"
  have key: "row_key sample_row = (Some ''G1'', None)"
    by (simp add: row_key_def sample_row_def path_row_def)
  have k0: "row_key sample_row \<notin> seen init_state"
    by (simp add: init_state_def)
  note t0 = add_row_dedup [where rt = rt0 and root = sample_doc and r = sample_row
      and st = init_state]
  have dist: "distinct (map row_key (fst (process_xml rt0 sample_doc)))"
    using t0 by (rule conjunct1)
  note r0 = t0 [THEN conjunct2, THEN conjunct2, THEN conjunct1, THEN mp, OF k0]
  have s1: "?st1 = init_state\<lparr>rows := [sample_row], seen := {(Some ''G1'', None)}\<rparr>"
    using r0 by (simp add: key init_state_def)
  have k1: "row_key sample_row \<in> seen ?st1"
    by (simp add: s1 key)
  note r1 = add_row_dedup [where r = sample_row and st = ?st1,
      THEN conjunct2, THEN conjunct2, THEN conjunct2, THEN conjunct1, THEN mp, OF k1]
  have f: "fmt (GUID sample_row) = ''G1''" "fmt (CommentID sample_row) = ''None''"
    by (simp_all add: fmt_def sample_row_def path_row_def)
  have s2: "add_row sample_row ?st1
       = init_state\<lparr>rows := [sample_row], seen := {(Some ''G1'', None)},
           debug_lines := [WARNING_SIGN @ '' Duplicate skipped: GUID=G1, CommentID=None'']\<rparr>"
    using r1 unfolding f s1 by (simp add: init_state_def)
  from sample_doc_keys dist k0 s1 k1 s2 show ?thesis by (intro conjI)
qed

section \<open>Views without comments\<close>

text \<open>
  C6, as stated, fails: two views without comments that share an identifier give one
  accepted row, not one each. The second is dropped by \<^verbatim>\<open>add_row\<close>, its key (the
  identifier with no comment id) being registered already.
\<close>

lemma twin_views_rows:
  "fst (process_xml rt0 twin_views)
     = [\<lparr>Category = Some ''A'', Level = None, Subfolder = None, ViewName = Some ''V1'',
          GUID = Some ''G'', CommentID = None, Status = None, User = None, Body = None,
          CreatedDate = None, ImagePath = Some ''navisworks_views_comments_vp0001.jpg''\<rparr>]"
  by code_simp

lemma twin_views_views:
  "document_views twin_views
     = [Element ''view'' [(''name'', ''V1''), (''guid'', ''G'')] None [],
        Element ''view'' [(''name'', ''V2''), (''guid'', ''G'')] None []]"
  by (simp add: twin_views_def document_views_def top_folders_def findall_def folder_views.simps)

theorem no_comments_twins_counterexample:
  "document_views twin_views
     = [Element ''view'' [(''name'', ''V1''), (''guid'', ''G'')] None [],
        Element ''view'' [(''name'', ''V2''), (''guid'', ''G'')] None []]
   \<and> list_all (\<lambda>v. find_elem v ''comments'' = None) (document_views twin_views)
   \<and> length (fst (process_xml rt0 twin_views)) = 1
   \<and> list_all (\<lambda>r. ViewName r = Some ''V1'') (fst (process_xml rt0 twin_views))"
  by (simp add: twin_views_views twin_views_rows find_elem_def)

text \<open>
  C6, amended. Visiting a view that has no \<^verbatim>\<open>comments\<close> element logs the "Found
  view" line and exactly one "No comments found" line, and submits exactly one row, whose
  comment id, status, user, body and created date are all absent. When the key of that
  row (the view's identifier, with no comment id) has not been seen, the row is accepted
  and the key registered; when it has been seen, the row is dropped and a duplicate line is
  logged.
\<close>

theorem no_comments_view:
  "find_elem view ''comments'' = None \<Longrightarrow>
   ((Some (attrib_get view ''guid'' []), None) \<notin> seen st \<longrightarrow>
      visit_view rt p view st =
        st\<lparr>rows := rows st @
              [\<lparr>Category = Category (path_row p), Level = Level (path_row p),
                 Subfolder = Subfolder (path_row p),
                 ViewName = Some (attrib_get view ''name'' []),
                 GUID = Some (attrib_get view ''guid'' []),
                 CommentID = None, Status = None, User = None, Body = None,
                 CreatedDate = None,
                 ImagePath = Some (image_file (view_counter st + 1))\<rparr>],
           seen := insert (Some (attrib_get view ''guid'' []), None) (seen st),
           view_counter := view_counter st + 1,
           debug_lines := debug_lines st @
              [found_line (attrib_get view ''name'' []) (attrib_get view ''guid'' [])
                 (image_file (view_counter st + 1)),
               no_comments_line (attrib_get view ''name'' [])]\<rparr>)
   \<and> ((Some (attrib_get view ''guid'' []), None) \<in> seen st \<longrightarrow>
      visit_view rt p view st =
        st\<lparr>view_counter := view_counter st + 1,
           debug_lines := debug_lines st @
              [found_line (attrib_get view ''name'' []) (attrib_get view ''guid'' [])
                 (image_file (view_counter st + 1)),
               no_comments_line (attrib_get view ''name'' []),
               WARNING_SIGN @ '' Duplicate skipped: GUID='' @ attrib_get view ''guid'' []
                 @ '', CommentID=None'']\<rparr>)"
  by (simp add: visit_view_def Let_def add_row_def log_line_def row_key_def path_row_def
      duplicate_line_def fmt_def)


theorem no_comments_view_witness:
  "find_elem (Element ''view'' [(''name'', ''V1''), (''guid'', ''G'')] None []) ''comments'' = None
   \<and> (Some ''G'', None) \<notin> seen init_state
   \<and> visit_view rt0 [''A''] (Element ''view'' [(''name'', ''V1''), (''guid'', ''G'')] None [])
         init_state
       = \<lparr>rows = [\<lparr>Category = Some ''A'', Level = None, Subfolder = None,
                    ViewName = Some ''V1'', GUID = Some ''G'', CommentID = None, Status = None,
                    User = None, Body = None, CreatedDate = None,
                    ImagePath = Some ''navisworks_views_comments_vp0001.jpg''\<rparr>],
          seen = {(Some ''G'', None)}, view_counter = 1,
          debug_lines = [found_line ''V1'' ''G'' ''navisworks_views_comments_vp0001.jpg'',
                         no_comments_line ''V1'']\<rparr>
   \<and> (Some ''G'', None) \<in> seen \<lparr>rows = [], seen = {(Some ''G'', None)}, view_counter = 1,
          debug_lines = []\<rparr>
   \<and> visit_view rt0 [''A''] (Element ''view'' [(''name'', ''V2''), (''guid'', ''G'')] None [])
         \<lparr>rows = [], seen = {(Some ''G'', None)}, view_counter = 1, debug_lines = []\<rparr>
       = \<lparr>rows = [], seen = {(Some ''G'', None)}, view_counter = 2,
          debug_lines = [found_line ''V2'' ''G'' ''navisworks_views_comments_vp0002.jpg'',
                         no_comments_line ''V2'',
                         WARNING_SIGN @ '' Duplicate skipped: GUID=G, CommentID=None'']\<rparr>"
proof -
  let ?v1 = "Element ''view'' [(''name'', ''V1''), (''guid'', ''G'')] None []"
  let ?v2 = "Element ''view'' [(''name'', ''V2''), (''guid'', ''G'')] None []"
  let ?st = "\<lparr>rows = [], seen = {(Some ''G'', None)}, view_counter = 1, debug_lines = []\<rparr>"
  have f1: "find_elem ?v1 ''comments'' = None" and f2: "find_elem ?v2 ''comments'' = None"
    by (simp_all add: find_elem_def)
  have img: "image_file 1 = ''navisworks_views_comments_vp0001.jpg''"
    "image_file 2 = ''navisworks_views_comments_vp0002.jpg''"
    by (simp_all add: image_file_def IMAGE_FILE_PREFIX_eq eval_str)
  have k0: "(Some ''G'', None) \<notin> seen init_state" by (simp add: init_state_def)
  have k1: "(Some ''G'', None) \<in> seen ?st" by simp
  have a: "visit_view rt0 [''A''] ?v1 init_state
       = \<lparr>rows = [\<lparr>Category = Some ''A'', Level = None, Subfolder = None,
                    ViewName = Some ''V1'', GUID = Some ''G'', CommentID = None, Status = None,
                    User = None, Body = None, CreatedDate = None,
                    ImagePath = Some ''navisworks_views_comments_vp0001.jpg''\<rparr>],
          seen = {(Some ''G'', None)}, view_counter = 1,
          debug_lines = [found_line ''V1'' ''G'' ''navisworks_views_comments_vp0001.jpg'',
                         no_comments_line ''V1'']\<rparr>"
    using no_comments_view [OF f1, of init_state rt0 "[''A'']"] k0
    by (simp add: attrib_get_def init_state_def img path_row_def)
  have b: "visit_view rt0 [''A''] ?v2 ?st
       = \<lparr>rows = [], seen = {(Some ''G'', None)}, view_counter = 2,
          debug_lines = [found_line ''V2'' ''G'' ''navisworks_views_comments_vp0002.jpg'',
                         no_comments_line ''V2'',
                         WARNING_SIGN @ '' Duplicate skipped: GUID=G, CommentID=None'']\<rparr>"
    using no_comments_view [OF f2, of ?st rt0 "[''A'']"]
    by (simp add: attrib_get_def img)
  from f1 k0 a k1 b show ?thesis by (intro conjI)
qed

section \<open>The older script and the refactored one\<close>

lemma image_file_legacy: "image_file n = ''navisworks_views_comments_'' @ legacy_image_file n"
  by (simp add: image_file_def legacy_image_file_def IMAGE_FILE_PREFIX_eq)

lemma legacy_parse_createddate_eq: "legacy_parse_createddate = parse_createddate"
  by (intro ext)
    (simp add: legacy_parse_createddate_def parse_createddate_def failed_line_def
      split: sum.splits)

lemma legacy_add_row_eq: "legacy_add_row = add_row"
  by (intro ext)
    (simp add: legacy_add_row_def add_row_def Let_def row_key_def log_line_def
      duplicate_line_def)

lemma row_key_relabel [simp]: "row_key (relabel r) = row_key r"
  by (simp add: row_key_def relabel_def)

lemma duplicate_line_relabel [simp]: "duplicate_line (relabel r) = duplicate_line r"
  by (simp add: duplicate_line_def relabel_def)

lemma line_rel_refl [simp]: "line_rel l l"
  by (simp add: line_rel_def)

lemma line_rel_found [simp]:
  "line_rel (found_line vn g (legacy_image_file n)) (found_line vn g (image_file n))"
  unfolding line_rel_def by blast

lemma sim_log: "sim old new \<Longrightarrow> line_rel a b \<Longrightarrow> sim (log_line a old) (log_line b new)"
  by (simp add: sim_def list_all2_appendI)

lemma sim_add_row: "sim old new \<Longrightarrow> sim (add_row r old) (add_row (relabel r) new)"
  by (auto simp add: sim_def add_row_def Let_def list_all2_appendI)

lemma parse_createddate_log:
  "parse_createddate rt created log
     = (fst (parse_createddate rt created []), log @ snd (parse_createddate rt created []))"
  by (simp add: parse_createddate_def split: sum.splits)

lemma sim_set_log:
  "sim old new \<Longrightarrow> sim (old\<lparr>debug_lines := debug_lines old @ xs\<rparr>)
     (new\<lparr>debug_lines := debug_lines new @ xs\<rparr>)"
  by (simp add: sim_def list_all2_appendI list_all2_refl)

lemma sim_visit_comment:
  assumes "sim old new" and img': "img' = ''navisworks_views_comments_'' @ img"
  shows "sim (legacy_visit_comment rt p vn g img c old) (visit_comment rt p vn g img' c new)"
proof -
  let ?cr = "find_elem c ''createddate''"
  let ?xs = "if ?cr \<noteq> None then snd (parse_createddate rt ?cr []) else []"
  let ?d = "if ?cr \<noteq> None then fst (parse_createddate rt ?cr []) else None"
  let ?line = "comment_line (attrib_get c ''id'' []) (attrib_get c ''status'' [])
      (findtext c ''user'')"
  let ?r = "(path_row p)
              \<lparr>ViewName := Some vn, GUID := Some g, CommentID := Some (attrib_get c ''id'' []),
               Status := Some (attrib_get c ''status'' []), User := findtext c ''user'',
               Body := findtext c ''body'', CreatedDate := ?d, ImagePath := Some img\<rparr>"
  have l: "legacy_visit_comment rt p vn g img c old
      = add_row ?r (log_line ?line (old\<lparr>debug_lines := debug_lines old @ ?xs\<rparr>))"
    by (simp add: legacy_visit_comment_def Let_def legacy_parse_createddate_eq legacy_add_row_eq
        parse_createddate_log [of rt ?cr "debug_lines old"] log_line_def)
  have n: "visit_comment rt p vn g img' c new
      = add_row (relabel ?r) (log_line ?line (new\<lparr>debug_lines := debug_lines new @ ?xs\<rparr>))"
    by (simp add: visit_comment_def Let_def relabel_def path_row_def img'
        parse_createddate_log [of rt ?cr "debug_lines new"] log_line_def)
  show ?thesis
    unfolding l n by (intro sim_add_row sim_log sim_set_log assms(1) line_rel_refl)
qed

lemma sim_fold_visit_comment:
  "sim old new \<Longrightarrow> img' = ''navisworks_views_comments_'' @ img \<Longrightarrow>
   sim (fold (legacy_visit_comment rt p vn g img) cs old)
     (fold (visit_comment rt p vn g img') cs new)"
proof (induction cs arbitrary: old new)
  case Nil
  then show ?case by simp
next
  case (Cons c cs)
  from Cons.prems have "sim (legacy_visit_comment rt p vn g img c old)
      (visit_comment rt p vn g img' c new)"
    by (intro sim_visit_comment)
  from Cons.IH [OF this Cons.prems(2)] show ?case by simp
qed

lemma sim_counter:
  "sim old new \<Longrightarrow> sim (old\<lparr>view_counter := view_counter old + 1\<rparr>)
     (new\<lparr>view_counter := view_counter new + 1\<rparr>)"
  by (simp add: sim_def)

lemma sim_visit_view:
  assumes "sim old new"
  shows "sim (legacy_visit_view rt p v old) (visit_view rt p v new)"
proof -
  let ?vn = "attrib_get v ''name'' []"
  let ?g = "attrib_get v ''guid'' []"
  let ?n = "view_counter old + 1"
  let ?old2 = "log_line (found_line ?vn ?g (legacy_image_file ?n))
      (old\<lparr>view_counter := view_counter old + 1\<rparr>)"
  let ?new2 = "log_line (found_line ?vn ?g (image_file ?n))
      (new\<lparr>view_counter := view_counter new + 1\<rparr>)"
  have c: "view_counter new = view_counter old" using assms by (simp add: sim_def)
  have s2: "sim ?old2 ?new2"
    by (intro sim_log sim_counter assms line_rel_found)
  show ?thesis
  proof (cases "find_elem v ''comments''")
    case None
    let ?r = "(path_row p)\<lparr>ViewName := Some ?vn, GUID := Some ?g,
        ImagePath := Some (legacy_image_file ?n)\<rparr>"
    have l: "legacy_visit_view rt p v old = add_row ?r (log_line (no_comments_line ?vn) ?old2)"
      using None by (simp add: legacy_visit_view_def Let_def legacy_add_row_eq log_line_def)
    have "image_file ?n = ''navisworks_views_comments_'' @ legacy_image_file ?n"
      by (rule image_file_legacy)
    then have rr: "relabel ?r = (path_row p)\<lparr>ViewName := Some ?vn, GUID := Some ?g,
        ImagePath := Some (image_file ?n)\<rparr>"
      by (simp add: relabel_def path_row_def)
    have n: "visit_view rt p v new = add_row (relabel ?r) (log_line (no_comments_line ?vn) ?new2)"
      using None unfolding rr by (simp add: visit_view_def Let_def c)
    show ?thesis
      unfolding l n by (intro sim_add_row sim_log s2 line_rel_refl)
  next
    case (Some cm)
    have l: "legacy_visit_view rt p v old
        = fold (legacy_visit_comment rt p ?vn ?g (legacy_image_file ?n)) (findall cm ''comment'') ?old2"
      using Some by (simp add: legacy_visit_view_def Let_def log_line_def)
    have n: "visit_view rt p v new
        = fold (visit_comment rt p ?vn ?g (image_file ?n)) (findall cm ''comment'') ?new2"
      using Some by (simp add: visit_view_def Let_def c)
    show ?thesis
      unfolding l n by (intro sim_fold_visit_comment s2 image_file_legacy)
  qed
qed

lemma sim_fold_visit_view:
  "sim old new \<Longrightarrow> sim (fold (legacy_visit_view rt p) vs old) (fold (visit_view rt p) vs new)"
  by (induction vs arbitrary: old new) (simp_all add: sim_visit_view)

lemma sim_recurse:
  "\<forall>old. sim old st \<longrightarrow> sim (legacy_recurse rt folder path old) (recurse rt folder path st)"
  "\<forall>old. sim old st \<longrightarrow> sim (legacy_recurse_each rt cs path old) (recurse_each rt cs path st)"
proof (induction rt folder path st and rt cs path st rule: recurse_recurse_each.induct)
  case (1 rt folder path st)
  let ?p = "path @ [attrib_get folder ''name'' []]"
  show ?case
  proof (intro allI impI)
    fix old assume s: "sim old st"
    let ?old2 = "fold (legacy_visit_view rt ?p) (findall folder ''view'')
        (log_line (entering_line ?p) old)"
    let ?new2 = "fold (visit_view rt ?p) (findall folder ''view'') (log_line (entering_line ?p) st)"
    have s2: "sim ?old2 ?new2"
      by (intro sim_fold_visit_view sim_log s line_rel_refl)
    have l: "legacy_recurse rt folder path old
        = legacy_recurse_each rt (findall folder ''viewfolder'') ?p ?old2"
      by (simp add: legacy_recurse.simps [of rt folder] Let_def log_line_def)
    have n: "recurse rt folder path st = recurse_each rt (findall folder ''viewfolder'') ?p ?new2"
      by (simp add: recurse.simps [of rt folder] Let_def)
    from "1.IH" [OF refl refl refl refl] s2
    show "sim (legacy_recurse rt folder path old) (recurse rt folder path st)"
      unfolding l n by blast
  qed
next
  case (2 rt new_path st)
  show ?case by simp
next
  case (3 rt child rest new_path st)
  show ?case
  proof (intro allI impI)
    fix old assume s: "sim old st"
    from "3.IH"(1) s have "sim (legacy_recurse rt child new_path old) (recurse rt child new_path st)"
      by blast
    with "3.IH"(2)
    show "sim (legacy_recurse_each rt (child # rest) new_path old)
        (recurse_each rt (child # rest) new_path st)"
      by simp
  qed
qed

lemma sim_walk: "sim (legacy_walk rt root) (walk rt root)"
proof -
  have "sim init_state init_state" by (simp add: sim_def init_state_def)
  with sim_recurse(2) [of init_state rt "top_folders root" "[]"] show ?thesis
    by (simp add: walk_def legacy_walk_def)
qed

text \<open>
  C10, as stated, fails: the two scripts name the images differently. On the document
  with one view and the comments C1, C2, C1 the refactored script gives the image path
  \<^verbatim>\<open>navisworks_views_comments_vp0001.jpg\<close> and the older one \<^verbatim>\<open>vp0001.jpg\<close>, so
  their results differ.
\<close>

theorem legacy_refactored_images_counterexample:
  "map ImagePath (fst (process_xml rt0 sample_doc))
     = [Some ''navisworks_views_comments_vp0001.jpg'', Some ''navisworks_views_comments_vp0001.jpg'']
   \<and> map ImagePath (fst (legacy_script rt0 sample_doc)) = [Some ''vp0001.jpg'', Some ''vp0001.jpg'']
   \<and> process_xml rt0 sample_doc \<noteq> legacy_script rt0 sample_doc"
proof -
  have a: "map ImagePath (fst (process_xml rt0 sample_doc))
     = [Some ''navisworks_views_comments_vp0001.jpg'', Some ''navisworks_views_comments_vp0001.jpg'']"
    by code_simp
  have b: "map ImagePath (fst (legacy_script rt0 sample_doc)) = [Some ''vp0001.jpg'', Some ''vp0001.jpg'']"
    by code_simp
  have "process_xml rt0 sample_doc \<noteq> legacy_script rt0 sample_doc"
  proof
    assume "process_xml rt0 sample_doc = legacy_script rt0 sample_doc"
    with a b show False by simp
  qed
  with a b show ?thesis by (intro conjI)
qed

text \<open>
  C10, amended. For every document the two scripts accept the same rows in the same order,
  except for the image path column: the older script writes \<^verbatim>\<open>vp\<close>, the padded number
  and \<^verbatim>\<open>.jpg\<close>, the refactored one the same with \<^verbatim>\<open>navisworks_views_comments_\<close> in
  front. Their logs have the same length and agree line by line, except that each "Found
  view" line ends with the script's own image name.
\<close>

theorem legacy_refactored:
  "fst (process_xml rt root) = map relabel (fst (legacy_script rt root))
   \<and> list_all2 line_rel (snd (legacy_script rt root)) (snd (process_xml rt root))
   \<and> length (snd (legacy_script rt root)) = length (snd (process_xml rt root))
   \<and> legacy_image_file n = ''vp'' @ zfill 4 (str_int n) @ ''.jpg''
   \<and> image_file n = ''navisworks_views_comments_vp'' @ zfill 4 (str_int n) @ ''.jpg''"
proof -
  have s: "sim (legacy_walk rt root) (walk rt root)" by (rule sim_walk)
  have a: "fst (process_xml rt root) = map relabel (fst (legacy_script rt root))"
    using s by (simp add: sim_def process_xml_def legacy_script_def Let_def)
  have b: "list_all2 line_rel (snd (legacy_script rt root)) (snd (process_xml rt root))"
    using s by (simp add: sim_def process_xml_def legacy_script_def Let_def)
  from b have c: "length (snd (legacy_script rt root)) = length (snd (process_xml rt root))"
    by (rule list_all2_lengthD)
  have d: "legacy_image_file n = ''vp'' @ zfill 4 (str_int n) @ ''.jpg''"
    by (simp add: legacy_image_file_def)
  have e: "image_file n = ''navisworks_views_comments_vp'' @ zfill 4 (str_int n) @ ''.jpg''"
    by (simp add: image_file_def IMAGE_FILE_PREFIX_eq)
  from a b c d e show ?thesis by (intro conjI)
qed

section \<open>The path columns\<close>

lemma same_records_refl [simp]: "same_records a a"
  by (simp add: same_records_def)

lemma same_records_log:
  "same_records a b \<Longrightarrow> same_records (log_line m a) (log_line m' b)"
  by (simp add: same_records_def)

lemma same_records_add_row:
  "same_records a b \<Longrightarrow> same_records (add_row r a) (add_row r b)"
  by (simp add: same_records_def add_row_def Let_def)

lemma same_records_visit_comment:
  assumes "same_records a b"
  shows "same_records (visit_comment rt p vn g img c a) (visit_comment rt p vn g img c b)"
proof -
  let ?cr = "find_elem c ''createddate''"
  have "same_records (a\<lparr>debug_lines := la\<rparr>) (b\<lparr>debug_lines := lb\<rparr>)" for la lb
    using assms by (simp add: same_records_def)
  with assms show ?thesis
    by (simp add: visit_comment_def Let_def parse_createddate_log [of rt ?cr "debug_lines a"]
        parse_createddate_log [of rt ?cr "debug_lines b"] same_records_add_row same_records_log)
qed

lemma same_records_fold_visit_comment:
  "same_records a b \<Longrightarrow>
   same_records (fold (visit_comment rt p vn g img) cs a) (fold (visit_comment rt p vn g img) cs b)"
  by (induction cs arbitrary: a b) (simp_all add: same_records_visit_comment)

lemma same_records_visit_view:
  assumes "same_records a b"
  shows "same_records (visit_view rt p v a) (visit_view rt p v b)"
proof -
  have c: "view_counter a = view_counter b" using assms by (simp add: same_records_def)
  have s: "same_records (a\<lparr>view_counter := n\<rparr>) (b\<lparr>view_counter := n\<rparr>)" for n
    using assms by (simp add: same_records_def)
  show ?thesis
    by (simp add: visit_view_def Let_def c split: option.splits)
      (intro conjI impI allI same_records_add_row same_records_log
        same_records_fold_visit_comment s)
qed

lemma same_records_fold_visit_view:
  "same_records a b \<Longrightarrow>
   same_records (fold (visit_view rt p) vs a) (fold (visit_view rt p) vs b)"
  by (induction vs arbitrary: a b) (simp_all add: same_records_visit_view)

lemma fold_visit_pairs:
  "fold (case_prod (visit_view rt)) (map (Pair p) vs) st = fold (visit_view rt p) vs st"
  by (induction vs arbitrary: st) simp_all

lemma same_records_fold_pairs:
  "same_records a b \<Longrightarrow>
   same_records (fold (case_prod (visit_view rt)) pvs a) (fold (case_prod (visit_view rt)) pvs b)"
  by (induction pvs arbitrary: a b) (auto simp add: same_records_visit_view)

lemma recurse_view_paths:
  "\<forall>st'. same_records st st' \<longrightarrow>
     same_records (recurse rt folder path st)
       (fold (case_prod (visit_view rt)) (folder_view_paths path folder) st')"
  "\<forall>st'. same_records st st' \<longrightarrow>
     same_records (recurse_each rt cs path st)
       (fold (case_prod (visit_view rt)) (folders_view_paths path cs) st')"
proof (induction rt folder path st and rt cs path st rule: recurse_recurse_each.induct)
  case (1 rt folder path st)
  let ?p = "path @ [attrib_get folder ''name'' []]"
  let ?vs = "findall folder ''view''"
  let ?st2 = "fold (visit_view rt ?p) ?vs (log_line (entering_line ?p) st)"
  show ?case
  proof (intro allI impI)
    fix st' assume s: "same_records st st'"
    have "same_records (log_line (entering_line ?p) st) st'"
      using s by (simp add: same_records_def)
    then have s2: "same_records ?st2 (fold (visit_view rt ?p) ?vs st')"
      by (rule same_records_fold_visit_view)
    have n: "recurse rt folder path st = recurse_each rt (findall folder ''viewfolder'') ?p ?st2"
      by (simp add: recurse.simps [of rt folder] Let_def)
    from "1.IH" [OF refl refl refl refl] s2
    show "same_records (recurse rt folder path st)
        (fold (case_prod (visit_view rt)) (folder_view_paths path folder) st')"
      unfolding n by (simp add: folder_view_paths.simps [of path folder] fold_visit_pairs)
  qed
next
  case (2 rt new_path st)
  show ?case by simp
next
  case (3 rt child rest new_path st)
  show ?case
  proof (intro allI impI)
    fix st' assume s: "same_records st st'"
    from "3.IH"(1) s have "same_records (recurse rt child new_path st)
        (fold (case_prod (visit_view rt)) (folder_view_paths new_path child) st')"
      by blast
    with "3.IH"(2)
    show "same_records (recurse_each rt (child # rest) new_path st)
        (fold (case_prod (visit_view rt)) (folders_view_paths new_path (child # rest)) st')"
      by simp
  qed
qed

lemma walk_view_paths:
  "same_records (walk rt root) (fold (case_prod (visit_view rt)) (document_view_paths root) init_state)"
  using recurse_view_paths(2) [of init_state rt "top_folders root" "[]"]
  by (simp add: walk_def document_view_paths_def)


lemma path_row_columns:
  "Category (path_row p) = (if p = [] then None else Some (hd p))"
  "Level (path_row p) = (if length p < 2 then None else Some (p ! 1))"
  "Subfolder (path_row p) = (if length p < 3 then None else Some (join '' > '' (drop 2 p)))"
  by (cases p; auto simp add: path_row_def)+

lemma visit_comment_row:
  "(Some g, Some (attrib_get c ''id'' [])) \<notin> seen st \<Longrightarrow>
   rows (visit_comment rt p vn g img c st) = rows st @
     [\<lparr>Category = (if p = [] then None else Some (hd p)),
        Level = (if length p < 2 then None else Some (p ! 1)),
        Subfolder = (if length p < 3 then None else Some (join '' > '' (drop 2 p))),
        ViewName = Some vn, GUID = Some g, CommentID = Some (attrib_get c ''id'' []),
        Status = Some (attrib_get c ''status'' []), User = findtext c ''user'',
        Body = findtext c ''body'',
        CreatedDate = (if find_elem c ''createddate'' = None then None
                       else fst (parse_createddate rt (find_elem c ''createddate'')
                                   (debug_lines st))),
        ImagePath = Some img\<rparr>]"
proof -
  have pr: "path_row p = \<lparr>Category = (if p = [] then None else Some (hd p)),
        Level = (if length p < 2 then None else Some (p ! 1)),
        Subfolder = (if length p < 3 then None else Some (join '' > '' (drop 2 p))),
        ViewName = None, GUID = None, CommentID = None, Status = None, User = None,
        Body = None, CreatedDate = None, ImagePath = None\<rparr>"
    using path_row_columns [of p] by (simp add: path_row_def)
  assume "(Some g, Some (attrib_get c ''id'' [])) \<notin> seen st"
  then show ?thesis
    unfolding pr
    by (simp add: visit_comment_def Let_def pr add_row_rows row_key_def split: prod.splits)
qed

lemma visit_view_row:
  "find_elem view ''comments'' = None \<Longrightarrow>
   (Some (attrib_get view ''guid'' []), None) \<notin> seen st \<Longrightarrow>
   rows (visit_view rt p view st) = rows st @
     [\<lparr>Category = (if p = [] then None else Some (hd p)),
        Level = (if length p < 2 then None else Some (p ! 1)),
        Subfolder = (if length p < 3 then None else Some (join '' > '' (drop 2 p))),
        ViewName = Some (attrib_get view ''name'' []),
        GUID = Some (attrib_get view ''guid'' []), CommentID = None, Status = None,
        User = None, Body = None, CreatedDate = None,
        ImagePath = Some (image_file (view_counter st + 1))\<rparr>]"
proof -
  have pr: "path_row p = \<lparr>Category = (if p = [] then None else Some (hd p)),
        Level = (if length p < 2 then None else Some (p ! 1)),
        Subfolder = (if length p < 3 then None else Some (join '' > '' (drop 2 p))),
        ViewName = None, GUID = None, CommentID = None, Status = None, User = None,
        Body = None, CreatedDate = None, ImagePath = None\<rparr>"
    using path_row_columns [of p] by (simp add: path_row_def)
  assume "find_elem view ''comments'' = None"
    "(Some (attrib_get view ''guid'' []), None) \<notin> seen st"
  then show ?thesis
    by (simp add: visit_view_def Let_def pr add_row_rows row_key_def)
qed

lemma visit_view_comments:
  assumes "find_elem view ''comments'' = Some cm"
  shows "rows (visit_view rt p view st)
     = rows (fold (visit_comment rt p (attrib_get view ''name'' []) (attrib_get view ''guid'' [])
                (image_file (view_counter st + 1))) (findall cm ''comment'') st)"
proof -
  let ?f = "visit_comment rt p (attrib_get view ''name'' []) (attrib_get view ''guid'' [])
      (image_file (view_counter st + 1))"
  let ?st2 = "log_line (found_line (attrib_get view ''name'' []) (attrib_get view ''guid'' [])
      (image_file (view_counter st + 1))) (st\<lparr>view_counter := view_counter st + 1\<rparr>)"
  have v: "visit_view rt p view st = fold ?f (findall cm ''comment'') ?st2"
    using assms by (simp add: visit_view_def Let_def)
  have "rows a = rows b \<and> seen a = seen b \<Longrightarrow>
      rows (fold ?f cs a) = rows (fold ?f cs b) \<and> seen (fold ?f cs a) = seen (fold ?f cs b)"
    for cs a b
  proof (induction cs arbitrary: a b)
    case Nil
    then show ?case by simp
  next
    case (Cons c cs)
    have "rows (?f c a) = rows (?f c b) \<and> seen (?f c a) = seen (?f c b)"
      using Cons.prems
      by (simp add: visit_comment_def Let_def add_row_def
          parse_createddate_log [of rt "find_elem c ''createddate''" "debug_lines a"]
          parse_createddate_log [of rt "find_elem c ''createddate''" "debug_lines b"])
    from Cons.IH [OF this] show ?case by simp
  qed
  from this [of ?st2 st "findall cm ''comment''"] show ?thesis
    unfolding v by simp
qed

text \<open>
  C7. The rows of a walk are the rows obtained by visiting each view under its accumulated
  folder path, for a folder and for the whole document. A view with comments adds the rows
  of its comments, each built under the same path; a comment with a new key adds exactly
  one row, and so does a view without comments: its category is the first element of the
  path (absent when the path is empty), its subcategory the second (absent when there are
  fewer than two), its detail path the elements from the third on joined with
  \<^verbatim>\<open> > \<close> (absent when there are fewer than three). Every row added while visiting
  a view has these three columns. The view nested under the folders Cat, Sub, D1, D2 has
  that path, and the walk of the document gives its comment the columns \<^verbatim>\<open>Cat\<close>,
  \<^verbatim>\<open>Sub\<close> and \<^verbatim>\<open>D1 > D2\<close>.
\<close>

theorem path_columns:
  "rows (recurse rt folder path st)
     = rows (fold (case_prod (visit_view rt)) (folder_view_paths path folder) st)
   \<and> fst (process_xml rt root)
     = rows (fold (case_prod (visit_view rt)) (document_view_paths root) init_state)
   \<and> (find_elem view ''comments'' = Some cm \<longrightarrow>
        rows (visit_view rt p view st)
          = rows (fold (visit_comment rt p (attrib_get view ''name'' [])
                    (attrib_get view ''guid'' []) (image_file (view_counter st + 1)))
                  (findall cm ''comment'') st))
   \<and> ((Some g, Some (attrib_get c ''id'' [])) \<notin> seen st \<longrightarrow>
        rows (visit_comment rt p vn g img c st) = rows st @
          [\<lparr>Category = (if p = [] then None else Some (hd p)),
             Level = (if length p < 2 then None else Some (p ! 1)),
             Subfolder = (if length p < 3 then None else Some (join '' > '' (drop 2 p))),
             ViewName = Some vn, GUID = Some g, CommentID = Some (attrib_get c ''id'' []),
             Status = Some (attrib_get c ''status'' []), User = findtext c ''user'',
             Body = findtext c ''body'',
             CreatedDate = (if find_elem c ''createddate'' = None then None
                            else fst (parse_createddate rt (find_elem c ''createddate'')
                                        (debug_lines st))),
             ImagePath = Some img\<rparr>])
   \<and> (find_elem view ''comments'' = None
        \<and> (Some (attrib_get view ''guid'' []), None) \<notin> seen st \<longrightarrow>
        rows (visit_view rt p view st) = rows st @
          [\<lparr>Category = (if p = [] then None else Some (hd p)),
             Level = (if length p < 2 then None else Some (p ! 1)),
             Subfolder = (if length p < 3 then None else Some (join '' > '' (drop 2 p))),
             ViewName = Some (attrib_get view ''name'' []),
             GUID = Some (attrib_get view ''guid'' []), CommentID = None, Status = None,
             User = None, Body = None, CreatedDate = None,
             ImagePath = Some (image_file (view_counter st + 1))\<rparr>])
   \<and> (\<exists>new. rows (visit_view rt p view st) = rows st @ new
      \<and> (\<forall>r \<in> set new.
            Category r = (if p = [] then None else Some (hd p))
          \<and> Level r = (if length p < 2 then None else Some (p ! 1))
          \<and> Subfolder r = (if length p < 3 then None else Some (join '' > '' (drop 2 p)))))
   \<and> map fst (document_view_paths nested_doc) = [[''Cat'', ''Sub'', ''D1'', ''D2'']]
   \<and> fst (process_xml rt0 nested_doc)
       = [\<lparr>Category = Some ''Cat'', Level = Some ''Sub'', Subfolder = Some ''D1 > D2'',
            ViewName = Some ''V'', GUID = Some ''G'', CommentID = Some ''C1'',
            Status = Some ''new'', User = None, Body = None, CreatedDate = None,
            ImagePath = Some ''navisworks_views_comments_vp0001.jpg''\<rparr>]"
proof -
  have a: "rows (recurse rt folder path st)
     = rows (fold (case_prod (visit_view rt)) (folder_view_paths path folder) st)"
    using recurse_view_paths(1) [of st rt folder path] by (simp add: same_records_def)
  have b: "fst (process_xml rt root)
     = rows (fold (case_prod (visit_view rt)) (document_view_paths root) init_state)"
    using walk_view_paths [of rt root] by (simp add: same_records_def process_xml_def Let_def)
  have c: "find_elem view ''comments'' = Some cm \<longrightarrow>
        rows (visit_view rt p view st)
          = rows (fold (visit_comment rt p (attrib_get view ''name'' [])
                    (attrib_get view ''guid'' []) (image_file (view_counter st + 1)))
                  (findall cm ''comment'') st)"
    using visit_view_comments by blast
  note d = visit_comment_row [of g c st rt p vn img, THEN impI [rotated]]
  note e = visit_view_row [of view st rt p]
  obtain new where new: "rows (visit_view rt p view st) = rows st @ new"
    "list_all (static_cols p (attrib_get view ''name'' []) (attrib_get view ''guid'' [])
          (image_file (view_counter st + 1))) new"
    using visit_view_rows by blast
  from new(2) have "\<forall>r \<in> set new.
            Category r = (if p = [] then None else Some (hd p))
          \<and> Level r = (if length p < 2 then None else Some (p ! 1))
          \<and> Subfolder r = (if length p < 3 then None else Some (join '' > '' (drop 2 p)))"
    unfolding list_all_iff static_cols_def path_row_columns by blast
  with new(1) have f: "\<exists>new. rows (visit_view rt p view st) = rows st @ new
      \<and> (\<forall>r \<in> set new.
            Category r = (if p = [] then None else Some (hd p))
          \<and> Level r = (if length p < 2 then None else Some (p ! 1))
          \<and> Subfolder r = (if length p < 3 then None else Some (join '' > '' (drop 2 p))))"
    by (intro exI [of _ new]) simp
  have g: "map fst (document_view_paths nested_doc) = [[''Cat'', ''Sub'', ''D1'', ''D2'']]"
    by (simp add: document_view_paths_def nested_doc_def top_folders_def findall_def
        folder_view_paths.simps attrib_get_def)
  have h: "fst (process_xml rt0 nested_doc)
       = [\<lparr>Category = Some ''Cat'', Level = Some ''Sub'', Subfolder = Some ''D1 > D2'',
            ViewName = Some ''V'', GUID = Some ''G'', CommentID = Some ''C1'',
            Status = Some ''new'', User = None, Body = None, CreatedDate = None,
            ImagePath = Some ''navisworks_views_comments_vp0001.jpg''\<rparr>]"
    by code_simp
  from e have e': "find_elem view ''comments'' = None
        \<and> (Some (attrib_get view ''guid'' []), None) \<notin> seen st \<longrightarrow>
        rows (visit_view rt p view st) = rows st @
          [\<lparr>Category = (if p = [] then None else Some (hd p)),
             Level = (if length p < 2 then None else Some (p ! 1)),
             Subfolder = (if length p < 3 then None else Some (join '' > '' (drop 2 p))),
             ViewName = Some (attrib_get view ''name'' []),
             GUID = Some (attrib_get view ''guid'' []), CommentID = None, Status = None,
             User = None, Body = None, CreatedDate = None,
             ImagePath = Some (image_file (view_counter st + 1))\<rparr>]"
    by blast
  from a b c d e' f g h show ?thesis by (intro conjI)
qed


theorem path_columns_witness:
  "(Some ''G'', Some (attrib_get (Element ''comment'' [(''id'', ''C1'')] None []) ''id'' []))
     \<notin> seen init_state
   \<and> rows (visit_comment rt0 [''Cat'', ''Sub'', ''D1'', ''D2''] ''V'' ''G'' ''vp.jpg''
             (Element ''comment'' [(''id'', ''C1'')] None []) init_state)
       = [\<lparr>Category = Some ''Cat'', Level = Some ''Sub'', Subfolder = Some ''D1 > D2'',
            ViewName = Some ''V'', GUID = Some ''G'', CommentID = Some ''C1'',
            Status = Some [], User = None, Body = None, CreatedDate = None,
            ImagePath = Some ''vp.jpg''\<rparr>]
   \<and> find_elem (Element ''view'' [(''guid'', ''G'')] None []) ''comments'' = None
   \<and> (Some (attrib_get (Element ''view'' [(''guid'', ''G'')] None []) ''guid'' []), None)
       \<notin> seen init_state
   \<and> rows (visit_view rt0 [''Cat'', ''Sub''] (Element ''view'' [(''guid'', ''G'')] None [])
             init_state)
       = [\<lparr>Category = Some ''Cat'', Level = Some ''Sub'', Subfolder = None,
            ViewName = Some [], GUID = Some ''G'', CommentID = None, Status = None,
            User = None, Body = None, CreatedDate = None,
            ImagePath = Some ''navisworks_views_comments_vp0001.jpg''\<rparr>]"
proof -
  let ?c = "Element ''comment'' [(''id'', ''C1'')] None []"
  let ?v = "Element ''view'' [(''guid'', ''G'')] None []"
  have k1: "(Some ''G'', Some (attrib_get ?c ''id'' [])) \<notin> seen init_state"
    by (simp add: init_state_def)
  have f2: "find_elem ?v ''comments'' = None"
    by (simp add: find_elem_def)
  have k2: "(Some (attrib_get ?v ''guid'' []), None) \<notin> seen init_state"
    by (simp add: init_state_def)
  have img: "image_file 1 = ''navisworks_views_comments_vp0001.jpg''"
    by (simp add: image_file_def IMAGE_FILE_PREFIX_eq eval_str)
  note r1 = path_columns [where rt = rt0 and p = "[''Cat'', ''Sub'', ''D1'', ''D2'']"
      and vn = "''V''" and g = "''G''" and img = "''vp.jpg''" and c = ?c and st = init_state,
      THEN conjunct2, THEN conjunct2, THEN conjunct2, THEN conjunct1, THEN mp, OF k1]
  note r2 = path_columns [where rt = rt0 and p = "[''Cat'', ''Sub'']" and view = ?v
      and st = init_state,
      THEN conjunct2, THEN conjunct2, THEN conjunct2, THEN conjunct2, THEN conjunct1, THEN mp,
      OF conjI [OF f2 k2]]
  have a: "rows (visit_comment rt0 [''Cat'', ''Sub'', ''D1'', ''D2''] ''V'' ''G'' ''vp.jpg'' ?c
             init_state)
       = [\<lparr>Category = Some ''Cat'', Level = Some ''Sub'', Subfolder = Some ''D1 > D2'',
            ViewName = Some ''V'', GUID = Some ''G'', CommentID = Some ''C1'',
            Status = Some [], User = None, Body = None, CreatedDate = None,
            ImagePath = Some ''vp.jpg''\<rparr>]"
    using r1 by (simp add: attrib_get_def findtext_def find_elem_def init_state_def)
  have b: "rows (visit_view rt0 [''Cat'', ''Sub''] ?v init_state)
       = [\<lparr>Category = Some ''Cat'', Level = Some ''Sub'', Subfolder = None,
            ViewName = Some [], GUID = Some ''G'', CommentID = None, Status = None,
            User = None, Body = None, CreatedDate = None,
            ImagePath = Some ''navisworks_views_comments_vp0001.jpg''\<rparr>]"
    using r2 by (simp add: attrib_get_def init_state_def img)
  from k1 a f2 k2 b show ?thesis by (intro conjI)
qed

section \<open>Missing attributes\<close>


lemma walk_error_eq: "(e :: walk_error) = RecursionError"
  by (cases e) simp

lemma Inl_walk_error: "(x :: walk_error + 'a) = Inl RecursionError \<longleftrightarrow> (\<forall>v. x \<noteq> Inr v)"
  by (cases x) (simp_all add: walk_error_eq)

























end
